theory Spec2Isabelle
  imports Main "HOL-Library.Word" "HOL-Library.Signed_Division"
begin

unbundle bit_operations_syntax

section \<open>Snooflake: a distributed unique ID generator (snooflake.go)\<close>

text \<open>
  Go's fixed-width integers are machine words. \<open>int64\<close> and \<open>uint64\<close> are both
  64-bit words: the conversion \<open>uint64(x)\<close> of an \<open>int64\<close> keeps the bits, so it is
  the identity here, and the signedness lives in the operations (\<open>\<le>s\<close>, \<open><s\<close>,
  \<open>sint\<close> for \<open>int64\<close>; \<open>\<le>\<close>, \<open><\<close>, \<open>unat\<close> for \<open>uint64\<close>). \<open>+\<close>, \<open>-\<close> and \<open>*\<close> wrap
  around, as Go's do.
\<close>

type_synonym int64 = "64 word"
type_synonym uint64 = "64 word"
type_synonym uint16 = "16 word"
type_synonym byte = "8 word"

subsection \<open>Constants\<close>

definition BitLenTime :: nat where
  "BitLenTime = 39"

definition BitLenSequence :: nat where
  "BitLenSequence = 8"

definition BitLenMachineID :: nat where
  "BitLenMachineID = 63 - BitLenTime - BitLenSequence"

text \<open>\<open>const snooflakeTimeUnit = 1e6 // 1 msec\<close>, in nanoseconds.\<close>

definition snooflakeTimeUnit :: int64 where
  "snooflakeTimeUnit = 1000000"

text \<open>\<open>time.Millisecond\<close> and \<open>time.Nanosecond\<close> of Go's \<open>time\<close> package
  (a \<open>time.Duration\<close> is an \<open>int64\<close> count of nanoseconds).\<close>

definition Millisecond :: int64 where
  "Millisecond = 1000000"

definition Nanosecond :: int64 where
  "Nanosecond = 1"

text \<open>
  A \<open>time.Time\<close> is an instant: the nanoseconds from 1970-01-01 00:00:00 UTC to it, an
  unbounded integer, negative before 1970 (a \<open>time.Time\<close> holds years far outside the
  range of \<open>int64\<close> nanoseconds, which is 1678 to 2262). The zero \<open>time.Time\<close> is
  0001-01-01 00:00:00 UTC, 62135596800 seconds before 1970.
  \<open>time.Date(2014, 9, 1, 0, 0, 0, 0, time.UTC)\<close> is 16314 days after 1970-01-01, that
  is 1409529600 seconds.
\<close>

type_synonym Time = int

definition zeroTime :: Time where
  "zeroTime = - 62135596800 * 1000000000"

definition Date_2014_09_01 :: Time where
  "Date_2014_09_01 = 1409529600 * 1000000000"

subsection \<open>Data\<close>

text \<open>The errors the package creates with \<open>errors.New\<close>, and any other error value
  (of \<open>net.InterfaceAddrs\<close> or of a caller's \<open>MachineID\<close> function) by its message.\<close>

datatype error =
    ErrOverTimeLimit      \<comment> \<open>\<open>errors.New("over the time limit")\<close>\<close>
  | ErrNoPrivateIP        \<comment> \<open>\<open>errors.New("no private ip address")\<close>\<close>
  | ErrOther string

text \<open>
  \<open>Settings\<close>. \<open>StartTime\<close> is a \<open>time.Time\<close>, \<open>zeroTime\<close> when it is not set.
  \<open>MachineID\<close> is \<open>None\<close> for a nil function, and otherwise what the function returns
  on the one call \<open>NewSnooflake\<close> makes. \<open>CheckMachineID\<close> is \<open>None\<close> for nil.
\<close>

record Settings =
  StartTime :: Time
  MachineID :: "(error + uint16) option"
  CheckMachineID :: "(uint16 \<Rightarrow> bool) option"

text \<open>\<open>Snooflake\<close>. The mutex is not a field of the model: \<open>NextID\<close> and \<open>NextIDs\<close>
  hold it for their whole body, so calls on one generator happen one after another,
  each on the state the one before left.\<close>

record Snooflake =
  startTime :: int64
  elapsedTime :: int64
  sequence :: uint16
  machineID :: uint16

subsection \<open>Time\<close>

text \<open>
  The methods of \<open>time.Time\<close> that the package calls. \<open>After\<close> and \<open>IsZero\<close> compare
  instants, of any year. \<open>UnixNano\<close> computes seconds times \<open>10^9\<close> plus nanoseconds in
  \<open>int64\<close>, which wraps around for an instant outside 1678 to 2262. \<open>UTC()\<close> changes the
  location and not the instant.
\<close>

definition After :: "Time \<Rightarrow> Time \<Rightarrow> bool" where
  "After t u = (u < t)"

definition IsZero :: "Time \<Rightarrow> bool" where
  "IsZero t = (t = zeroTime)"

definition UnixNano :: "Time \<Rightarrow> int64" where
  "UnixNano t = word_of_int t"

text \<open>Go's \<open>/\<close> and \<open>%\<close> on \<open>int64\<close> truncate towards zero.\<close>

definition div64 :: "int64 \<Rightarrow> int64 \<Rightarrow> int64" where
  "div64 a b = word_of_int (sint a sdiv sint b)"

definition rem64 :: "int64 \<Rightarrow> int64 \<Rightarrow> int64" where
  "rem64 a b = word_of_int (sint a smod sint b)"

text \<open>\<open>toSnooflakeTime\<close> is given \<open>t.UTC().UnixNano()\<close>, the reading of its argument:
  \<open>toSnooflakeTime(t)\<close> of the source is \<open>toSnooflakeTime (UnixNano t)\<close> here.\<close>

definition toSnooflakeTime :: "int64 \<Rightarrow> int64" where
  "toSnooflakeTime t = div64 t snooflakeTimeUnit"

text \<open>\<open>now\<close> is the \<open>UnixNano\<close> reading of \<open>time.Now()\<close>: any \<open>int64\<close>.\<close>

definition currentElapsedTime :: "int64 \<Rightarrow> int64 \<Rightarrow> int64" where
  "currentElapsedTime startTime' now = toSnooflakeTime now - startTime'"

definition sleepTime :: "int64 \<Rightarrow> int64 \<Rightarrow> int64" where
  "sleepTime overtime now =
     overtime * 1 * Millisecond - rem64 now snooflakeTimeUnit * Nanosecond"

subsection \<open>Packing and unpacking\<close>

definition toID :: "Snooflake \<Rightarrow> error + uint64" where
  "toID sf =
     (if 2 ^ BitLenTime \<le>s elapsedTime sf then Inl ErrOverTimeLimit
      else Inr (push_bit (BitLenSequence + BitLenMachineID) (elapsedTime sf)
                OR push_bit BitLenMachineID (ucast (sequence sf))
                OR ucast (machineID sf)))"

text \<open>\<open>Decompose\<close> returns a \<open>map[string]uint64\<close>. In Go \<open>&\<close> and \<open>>>\<close> have the same
  precedence and associate to the left: \<open>id & maskSequence >> BitLenMachineID\<close> is
  \<open>(id & maskSequence) >> BitLenMachineID\<close>.\<close>

definition Decompose :: "uint64 \<Rightarrow> (string \<rightharpoonup> uint64)" where
  "Decompose x =
     (let maskSequence = push_bit BitLenMachineID (2 ^ BitLenSequence - 1) :: uint64;
          maskMachineID = 2 ^ BitLenMachineID - 1 :: uint64;
          msb = drop_bit 63 x;
          time = drop_bit (BitLenSequence + BitLenMachineID) x;
          sequence' = drop_bit BitLenMachineID (x AND maskSequence);
          machineID' = x AND maskMachineID
      in [''id'' \<mapsto> x, ''msb'' \<mapsto> msb, ''time'' \<mapsto> time,
          ''sequence'' \<mapsto> sequence', ''machine-id'' \<mapsto> machineID'])"

subsection \<open>Allocation\<close>

text \<open>
  \<open>nextID\<close> returns its result and the generator as the call leaves it. \<open>now\<close> is the
  reading of \<open>time.Now()\<close> in \<open>currentElapsedTime\<close>. \<open>time.Sleep\<close> changes no field; what
  it does is delay the caller, which shows in the clock readings of later calls, and
  those are inputs here. \<open>nextID_sleep\<close> is the duration handed to \<open>time.Sleep\<close>, if
  the call sleeps (\<open>now'\<close> is the second reading of the clock, in \<open>sleepTime\<close>).
\<close>

definition nextID :: "Snooflake \<Rightarrow> int64 \<Rightarrow> (error + uint64) \<times> Snooflake" where
  "nextID sf now =
     (let maskSequence = 2 ^ BitLenSequence - 1 :: uint16;
          current = currentElapsedTime (startTime sf) now;
          sf' = (if elapsedTime sf <s current
                 then sf\<lparr>elapsedTime := current, sequence := 0\<rparr>
                 else let sf1 = sf\<lparr>sequence := (sequence sf + 1) AND maskSequence\<rparr>
                      in if sequence sf1 = 0
                         then sf1\<lparr>elapsedTime := elapsedTime sf1 + 1\<rparr>
                         else sf1)
      in (toID sf', sf'))"

definition nextID_sleep :: "Snooflake \<Rightarrow> int64 \<Rightarrow> int64 \<Rightarrow> int64 option" where
  "nextID_sleep sf now now' =
     (let maskSequence = 2 ^ BitLenSequence - 1 :: uint16;
          current = currentElapsedTime (startTime sf) now
      in if elapsedTime sf <s current then None
         else if (sequence sf + 1) AND maskSequence = 0
         then Some (sleepTime (elapsedTime sf + 1 - current) now')
         else None)"

definition NextID :: "Snooflake \<Rightarrow> int64 \<Rightarrow> (error + uint64) \<times> Snooflake" where
  "NextID sf now = nextID sf now"

text \<open>
  \<open>NextIDs\<close>. \<open>clock i\<close> is the reading of \<open>time.Now()\<close> in the call of \<open>nextID\<close> for
  item \<open>i\<close>. The loop writes \<open>ids[i]\<close> in the slice that \<open>make([]uint64, num)\<close> filled
  with zeros; \<open>i < num = len(ids)\<close> there, so the index is in range. \<open>make\<close> panics
  when \<open>num\<close> is negative: the result \<open>None\<close>.
\<close>

function NextIDs_loop ::
  "(nat \<Rightarrow> int64) \<Rightarrow> nat \<Rightarrow> nat \<Rightarrow> Snooflake \<Rightarrow> uint64 list
     \<Rightarrow> (uint64 list \<times> error option) \<times> Snooflake" where
  "NextIDs_loop clock num i sf ids =
     (if i < num
      then (case nextID sf (clock i) of
              (Inl err, sf') \<Rightarrow> ((ids, Some err), sf')
            | (Inr v, sf') \<Rightarrow> NextIDs_loop clock num (Suc i) sf' (ids[i := v]))
      else ((ids, None), sf))"
  by pat_completeness auto
termination
  by (relation "measure (\<lambda>(clock, num, i, sf, ids). num - i)") auto

definition NextIDs ::
  "Snooflake \<Rightarrow> (nat \<Rightarrow> int64) \<Rightarrow> int
     \<Rightarrow> ((uint64 list \<times> error option) \<times> Snooflake) option" where
  "NextIDs sf clock num =
     (if num < 0 then None
      else Some (NextIDs_loop clock (nat num) 0 sf (replicate (nat num) 0)))"

subsection \<open>The default machine ID\<close>

text \<open>
  A \<open>net.IP\<close> is a byte slice, \<open>None\<close> when nil. \<open>To4\<close> and \<open>IsLoopback\<close> are those of
  Go's \<open>net\<close> package: \<open>To4\<close> gives the 4 bytes of a 4-byte address or of a 16-byte
  IPv4-mapped one and nil otherwise; \<open>IsLoopback\<close> holds of 127.0.0.0/8 and of ::1.
  A \<open>net.Addr\<close> is a \<open>*net.IPNet\<close> (of which only the field \<open>IP\<close> is read) or of
  another type.

  \<open>isPrivateIPv4\<close> and \<open>lower16BitPrivateIP\<close> index the slice without a check of its
  length. The one slice that reaches them is a result of \<open>To4\<close>, nil or 4 bytes long
  (\<open>To4_length\<close> below), so \<open>ip[0]\<close> to \<open>ip[3]\<close> are in range, and the properties are
  about 4-byte addresses.
\<close>

datatype Addr = IPNet "byte list" | OtherAddr

definition To4 :: "byte list \<Rightarrow> byte list option" where
  "To4 ip =
     (if length ip = 4 then Some ip
      else if length ip = 16 \<and> take 10 ip = replicate 10 0
              \<and> ip ! 10 = 255 \<and> ip ! 11 = 255
      then Some (drop 12 ip)
      else None)"

definition IsLoopback :: "byte list \<Rightarrow> bool" where
  "IsLoopback ip =
     (case To4 ip of
        Some ip4 \<Rightarrow> ip4 ! 0 = 127
      | None \<Rightarrow> ip = replicate 15 0 @ [1])"

definition isPrivateIPv4 :: "byte list option \<Rightarrow> bool" where
  "isPrivateIPv4 ip =
     (case ip of
        None \<Rightarrow> False
      | Some b \<Rightarrow> b ! 0 = 10 \<or> b ! 0 = 172 \<and> (16 \<le> b ! 1 \<and> b ! 1 < 32)
                  \<or> b ! 0 = 192 \<and> b ! 1 = 168)"

fun privateIPv4_loop :: "Addr list \<Rightarrow> error + byte list" where
  "privateIPv4_loop [] = Inl ErrNoPrivateIP"
| "privateIPv4_loop (OtherAddr # as) = privateIPv4_loop as"
| "privateIPv4_loop (IPNet ip # as) =
     (if IsLoopback ip then privateIPv4_loop as
      else (case To4 ip of
              None \<Rightarrow> privateIPv4_loop as
            | Some ip4 \<Rightarrow> if isPrivateIPv4 (Some ip4) then Inr ip4
                          else privateIPv4_loop as))"

text \<open>\<open>ifaddrs\<close> is what \<open>net.InterfaceAddrs()\<close> returns.\<close>

definition privateIPv4 :: "error + Addr list \<Rightarrow> error + byte list" where
  "privateIPv4 ifaddrs =
     (case ifaddrs of Inl err \<Rightarrow> Inl err | Inr as \<Rightarrow> privateIPv4_loop as)"

text \<open>In Go \<open><<\<close> binds tighter than \<open>+\<close>.\<close>

definition lower16BitPrivateIP :: "error + Addr list \<Rightarrow> error + uint16" where
  "lower16BitPrivateIP ifaddrs =
     (case privateIPv4 ifaddrs of
        Inl err \<Rightarrow> Inl err
      | Inr ip \<Rightarrow> Inr (push_bit 8 (ucast (ip ! 2)) + ucast (ip ! 3)))"

subsection \<open>Construction\<close>

text \<open>\<open>NewSnooflake\<close> returns \<open>None\<close> for nil. \<open>now\<close> is the \<open>time.Time\<close> that
  \<open>time.Now()\<close> returns, \<open>ifaddrs\<close> what \<open>net.InterfaceAddrs()\<close> returns.\<close>

definition NewSnooflake ::
  "Settings \<Rightarrow> Time \<Rightarrow> error + Addr list \<Rightarrow> Snooflake option" where
  "NewSnooflake st now ifaddrs =
     (let sf = \<lparr>startTime = 0, elapsedTime = 0,
                sequence = 2 ^ BitLenSequence - 1, machineID = 0\<rparr>
      in if After (StartTime st) now then None
         else let sf = (if IsZero (StartTime st)
                        then sf\<lparr>startTime := toSnooflakeTime (UnixNano Date_2014_09_01)\<rparr>
                        else sf\<lparr>startTime := toSnooflakeTime (UnixNano (StartTime st))\<rparr>);
                  r = (case MachineID st of
                         None \<Rightarrow> lower16BitPrivateIP ifaddrs
                       | Some f \<Rightarrow> f)
              in case r of
                   Inl err \<Rightarrow> None
                 | Inr m \<Rightarrow>
                     if (case CheckMachineID st of
                           None \<Rightarrow> False
                         | Some check \<Rightarrow> \<not> check m)
                     then None
                     else Some (sf\<lparr>machineID := m\<rparr>))"

subsection \<open>Notions the properties are stated with\<close>

text \<open>The value of bits \<open>lo..hi\<close> of a word.\<close>

definition bits :: "nat \<Rightarrow> nat \<Rightarrow> uint64 \<Rightarrow> uint64" where
  "bits lo hi x = take_bit (Suc hi - lo) (drop_bit lo x)"

text \<open>Consecutive calls of \<open>NextID\<close> on one generator, one clock reading each: the
  results in call order, and the generator after the last call.\<close>

fun NextID_calls :: "Snooflake \<Rightarrow> int64 list \<Rightarrow> (error + uint64) list \<times> Snooflake" where
  "NextID_calls sf [] = ([], sf)"
| "NextID_calls sf (now # nows) =
     (case NextID sf now of
        (r, sf') \<Rightarrow> (case NextID_calls sf' nows of (rs, sf'') \<Rightarrow> (r # rs, sf'')))"

text \<open>
  IPv4 prefixes, as the address ranges are written (\<open>10.0.0.0/8\<close>): the value of a
  4-byte address as a 32-bit number, most significant byte first, and membership of
  the address in the prefix \<open>net/len\<close>, which compares the leading \<open>len\<close> bits.
\<close>

definition ipv4_value :: "byte list \<Rightarrow> nat" where
  "ipv4_value ip =
     unat (ip ! 0) * 2 ^ 24 + unat (ip ! 1) * 2 ^ 16 + unat (ip ! 2) * 2 ^ 8 + unat (ip ! 3)"

definition in_prefix :: "byte list \<Rightarrow> byte list \<Rightarrow> nat \<Rightarrow> bool" where
  "in_prefix ip net len =
     (ipv4_value ip div 2 ^ (32 - len) = ipv4_value net div 2 ^ (32 - len))"

text \<open>The private IPv4 addresses among the interface addresses, in their order, each
  in its 4-byte form.\<close>

definition private_addrs :: "Addr list \<Rightarrow> byte list list" where
  "private_addrs as =
     [ip4. IPNet ip \<leftarrow> as, Some ip4 \<leftarrow> [To4 ip], isPrivateIPv4 (Some ip4)]"

section \<open>Properties\<close>

subsection \<open>Words\<close>

lemma sint64_nonneg_uint:
  fixes t :: "64 word"
  assumes "0 \<le> sint t"
  shows "uint t = sint t"
proof -
  have "sint t < 2 ^ 64"
    using sint_lt [of t] by simp
  with assms show ?thesis
    by (simp add: uint_sint [of t] take_bit_int_eq_self)
qed

lemma bit_below:
  fixes w :: "'a::len word"
  assumes "w < 2 ^ k"
  shows "\<forall>n. bit w n \<longrightarrow> n < k"
proof (intro allI impI)
  fix n assume b: "bit w n"
  have "take_bit k w = w" using assms(1) by (simp add: take_bit_eq_mask less_mask_eq)
  then have "bit (take_bit k w) n" using b by simp
  then show "n < k" by (simp add: bit_take_bit_iff)
qed

lemma time_field_fits:
  fixes t :: "64 word"
  assumes "0 \<le>s t" "t <s 2 ^ 39"
  shows "t < 2 ^ 39"
proof -
  have nn: "0 \<le> sint t" using assms(1) by (simp add: word_sle_eq)
  have "sint t < 2 ^ 39" using assms(2) by (simp add: word_sless_alt)
  with nn have "uint t < 2 ^ 39" by (simp add: sint64_nonneg_uint)
  then show "t < 2 ^ 39" by (simp add: word_less_def)
qed

lemma unpack_time:
  fixes t :: "64 word" and s m :: "16 word"
  assumes "t < 2 ^ 39" "s < 2 ^ 8"
  shows "drop_bit 24 (push_bit 24 t OR push_bit 16 (ucast s) OR ucast m) = t"
  apply (rule bit_word_eqI)
  using bit_below[OF assms(1)] bit_below[OF assms(2)]
  apply (auto simp: bit_simps dest: bit_imp_le_length)
  done

lemma unpack_msb:
  fixes t :: "64 word" and s m :: "16 word"
  assumes "t < 2 ^ 39"
  shows "drop_bit 63 (push_bit 24 t OR push_bit 16 (ucast s) OR ucast m) = 0"
  apply (rule bit_word_eqI)
  using bit_below[OF assms(1)]
  apply (auto simp: bit_simps dest: bit_imp_le_length)
  done

lemma unpack_sequence:
  fixes t :: "64 word" and s m :: "16 word"
  assumes "s < 2 ^ 8"
  shows "drop_bit 16 ((push_bit 24 t OR push_bit 16 (ucast s) OR ucast m) AND push_bit 16 (mask 8)) = ucast s"
  apply (rule bit_word_eqI)
  using bit_below[OF assms(1)]
  apply (auto simp: bit_simps dest: bit_imp_le_length)
  done

lemma unpack_machineID:
  fixes t :: "64 word" and s m :: "16 word"
  shows "(push_bit 24 t OR push_bit 16 (ucast s) OR ucast m) AND mask 16 = ucast m"
  apply (rule bit_word_eqI)
  apply (auto simp: bit_simps dest: bit_imp_le_length)
  done

subsection \<open>Packing and unpacking\<close>

lemma maskSequence_eq: "push_bit 16 (255 :: 64 word) = push_bit 16 (mask 8)"
  by (simp add: mask_eq_exp_minus_1)

lemma maskMachineID_eq: "(65535 :: 64 word) = mask 16"
  by (simp add: mask_eq_exp_minus_1)

lemma Decompose_fields:
  "Decompose x =
     [''id'' \<mapsto> x, ''msb'' \<mapsto> drop_bit 63 x, ''time'' \<mapsto> drop_bit 24 x,
      ''sequence'' \<mapsto> drop_bit 16 (x AND push_bit 16 (mask 8)),
      ''machine-id'' \<mapsto> x AND mask 16]"
  unfolding Decompose_def Let_def BitLenTime_def BitLenSequence_def BitLenMachineID_def
  by (simp add: maskSequence_eq maskMachineID_eq del: push_bit_numeral)

lemma toID_ok:
  "\<not> 2 ^ 39 \<le>s elapsedTime sf \<Longrightarrow>
   toID sf = Inr (push_bit 24 (elapsedTime sf) OR push_bit 16 (ucast (sequence sf))
                  OR ucast (machineID sf))"
  by (simp add: toID_def BitLenTime_def BitLenSequence_def BitLenMachineID_def)

text \<open>
  Claim C1. For every time \<open>t\<close> in \<open>[0, 2^39)\<close>, sequence \<open>s\<close> in \<open>[0, 2^8)\<close> and
  machine id \<open>m\<close> in \<open>[0, 2^16)\<close>, \<open>toID\<close> packs the three fields into
  \<open>t << 24 | s << 16 | m\<close>, and \<open>Decompose\<close> of that value gives back time \<open>t\<close>,
  sequence \<open>s\<close>, machine id \<open>m\<close>, msb 0, and the value itself as id.
\<close>

theorem Decompose_toID_roundtrip:
  fixes t :: int64 and s m :: uint16
  assumes "0 \<le>s t" and "t <s 2 ^ 39" and "s < 2 ^ 8"
  shows "toID \<lparr>startTime = st, elapsedTime = t, sequence = s, machineID = m\<rparr>
           = Inr (push_bit 24 t OR push_bit 16 (ucast s) OR ucast m)
         \<and> Decompose (push_bit 24 t OR push_bit 16 (ucast s) OR ucast m)
           = [''id'' \<mapsto> push_bit 24 t OR push_bit 16 (ucast s) OR ucast m,
              ''msb'' \<mapsto> 0, ''time'' \<mapsto> t, ''sequence'' \<mapsto> ucast s,
              ''machine-id'' \<mapsto> ucast m]"
proof -
  have lt: "t < 2 ^ 39"
    using assms(1,2) by (rule time_field_fits)
  have "\<not> 2 ^ 39 \<le>s t"
    using assms(2) by (simp add: word_sle_eq word_sless_alt)
  then have enc: "toID \<lparr>startTime = st, elapsedTime = t, sequence = s, machineID = m\<rparr>
           = Inr (push_bit 24 t OR push_bit 16 (ucast s) OR ucast m)"
    by (simp add: toID_ok)
  have dec: "Decompose (push_bit 24 t OR push_bit 16 (ucast s) OR ucast m)
           = [''id'' \<mapsto> push_bit 24 t OR push_bit 16 (ucast s) OR ucast m,
              ''msb'' \<mapsto> 0, ''time'' \<mapsto> t, ''sequence'' \<mapsto> ucast s,
              ''machine-id'' \<mapsto> ucast m]"
    by (simp only: Decompose_fields unpack_msb [OF lt] unpack_time [OF lt assms(3)]
        unpack_sequence [OF assms(3)] unpack_machineID)
  from enc dec show ?thesis by (rule conjI)
qed

theorem Decompose_toID_roundtrip_witness:
  "((0 :: int64) \<le>s 5 \<and> (5 :: int64) <s 2 ^ 39 \<and> (3 :: uint16) < 2 ^ 8)
   \<and> toID \<lparr>startTime = 0, elapsedTime = 5, sequence = 3, machineID = 7\<rparr> = Inr 84082695
   \<and> Decompose 84082695
      = [''id'' \<mapsto> 84082695, ''msb'' \<mapsto> 0, ''time'' \<mapsto> 5, ''sequence'' \<mapsto> 3,
         ''machine-id'' \<mapsto> 7]"
proof -
  have h: "(0 :: int64) \<le>s 5" "(5 :: int64) <s 2 ^ 39" "(3 :: uint16) < 2 ^ 8"
    by (simp_all add: word_sle_eq word_sless_alt)
  show ?thesis
    using h Decompose_toID_roundtrip [OF h, of 0 7] by simp
qed

text \<open>
  The claim C8 as worded takes the time to be bits 24..62. \<open>Decompose\<close> shifts and does
  not mask the time, so bit 63 is part of it: at the maximum value the time is
  \<open>2^40 - 1\<close>, and bits 24..62 are \<open>2^39 - 1\<close>.
\<close>

theorem Decompose_time_counterexample:
  "Decompose (- 1) ''time'' \<noteq> Some (bits 24 62 (- 1))"
  by (simp add: Decompose_fields bits_def mask_eq_exp_minus_1)

lemma bits_drop: "bits lo 63 x = drop_bit lo x"
  by (rule bit_word_eqI) (auto simp: bits_def bit_simps dest: bit_imp_le_length)

lemma bits_msb: "bits 63 63 x = drop_bit 63 x"
  by (rule bits_drop)

lemma bits_sequence: "bits 16 23 x = drop_bit 16 (x AND push_bit 16 (mask 8))"
  by (rule bit_word_eqI) (auto simp: bits_def bit_simps)

lemma bits_machineID: "bits 0 15 x = x AND mask 16"
  by (rule bit_word_eqI) (auto simp: bits_def bit_simps)

text \<open>
  Claim C8, amended. \<open>Decompose\<close> has no failing branch and is defined on every
  \<open>uint64\<close>. Its result has exactly the five keys id, msb, time, sequence and
  machine-id: id is the input, msb is bit 63, time is bits 24..63 (the input shifted
  right by 24), sequence is bits 16..23 and machine-id is bits 0..15. The time is bits
  24..62 exactly when the msb is 0.
\<close>

theorem Decompose_total:
  "dom (Decompose x) = {''id'', ''msb'', ''time'', ''sequence'', ''machine-id''}
   \<and> Decompose x ''id'' = Some x
   \<and> Decompose x ''msb'' = Some (bits 63 63 x)
   \<and> Decompose x ''time'' = Some (bits 24 63 x)
   \<and> Decompose x ''sequence'' = Some (bits 16 23 x)
   \<and> Decompose x ''machine-id'' = Some (bits 0 15 x)
   \<and> (bits 24 63 x = bits 24 62 x \<longleftrightarrow> bits 63 63 x = 0)"
proof -
  have msb0: "(drop_bit 24 x = bits 24 62 x) = (drop_bit 63 x = 0)"
  proof
    assume e: "drop_bit 24 x = bits 24 62 x"
    have "\<not> bit (bits 24 62 x) 39" by (simp add: bits_def bit_simps)
    then have "\<not> bit (drop_bit 24 x) 39" using e by simp
    then have nb: "\<not> bit x 63" by (simp add: bit_simps)
    show "drop_bit 63 x = 0"
    proof (rule bit_word_eqI)
      fix n assume "n < LENGTH(64)"
      have "\<not> bit x (63 + n)"
        using nb bit_imp_le_length [of x "63 + n"] by (cases n) auto
      then show "bit (drop_bit 63 x) n = bit (0 :: 64 word) n"
        by (simp add: bit_simps)
    qed
  next
    assume z: "drop_bit 63 x = 0"
    have "\<not> bit (drop_bit 63 x) 0" using z by simp
    then have nb: "\<not> bit x 63" by (simp add: bit_simps)
    show "drop_bit 24 x = bits 24 62 x"
    proof (rule bit_word_eqI)
      fix n assume "n < LENGTH(64)"
      show "bit (drop_bit 24 x) n = bit (bits 24 62 x) n"
      proof (cases "n = 39")
        case True
        then show ?thesis using nb by (simp add: bits_def bit_simps)
      next
        case False
        then show ?thesis
          by (auto simp: bits_def bit_simps dest: bit_imp_le_length)
      qed
    qed
  qed
  show ?thesis
    by (simp only: bits_drop bits_sequence bits_machineID msb0)
       (auto simp: Decompose_fields)
qed

subsection \<open>One allocation\<close>

lemma maskSequence16: "(2 ^ BitLenSequence - 1 :: uint16) = 255"
  by (simp add: BitLenSequence_def)

lemma nextID_result: "fst (nextID sf now) = toID (snd (nextID sf now))"
  by (simp add: nextID_def Let_def)

lemma nextID_state:
  "snd (nextID sf now) =
     (if elapsedTime sf <s currentElapsedTime (startTime sf) now
      then sf\<lparr>elapsedTime := currentElapsedTime (startTime sf) now, sequence := 0\<rparr>
      else if (sequence sf + 1) AND 255 = 0
      then sf\<lparr>elapsedTime := elapsedTime sf + 1, sequence := 0\<rparr>
      else sf\<lparr>sequence := (sequence sf + 1) AND 255\<rparr>)"
  by (simp add: nextID_def Let_def maskSequence16)

lemma and_255_mod:
  fixes s :: uint16
  shows "unat ((s + 1) AND 255) = (unat s + 1) mod 2 ^ 8"
proof -
  have "(s + 1) AND 255 = take_bit 8 (s + 1)"
    by (simp add: take_bit_eq_mask mask_eq_exp_minus_1)
  then have "unat ((s + 1) AND 255) = take_bit 8 (unat (s + 1))"
    by (simp add: unsigned_take_bit_eq)
  also have "\<dots> = ((unat s + 1) mod 2 ^ 16) mod 2 ^ 8"
    by (simp add: take_bit_eq_mod unat_word_ariths)
  also have "\<dots> = (unat s + 1) mod 2 ^ 8"
    by (simp add: mod_mod_cancel)
  finally show ?thesis .
qed

lemma seq_step_changes:
  fixes s :: uint16
  shows "(s + 1) AND 255 \<noteq> s"
proof
  assume e: "(s + 1) AND 255 = s"
  then have "unat s = (unat s + 1) mod 2 ^ 8"
    using and_255_mod [of s] by simp
  moreover have "unat s < 2 ^ 8"
    using calculation by (metis mod_less_divisor zero_less_numeral zero_less_power)
  ultimately show False
    by (cases "unat s + 1 < 2 ^ 8") (simp_all add: mod_Suc)
qed

lemma currentElapsedTime_5: "currentElapsedTime 0 5000000 = 5"
  by (simp add: currentElapsedTime_def toSnooflakeTime_def div64_def snooflakeTimeUnit_def)

text \<open>
  Claim C6. For every generator state and every reading of the clock, with \<open>current\<close>
  the elapsed time \<open>nextID\<close> computes from it: if \<open>elapsedTime < current\<close>, the call sets
  \<open>elapsedTime\<close> to \<open>current\<close> and \<open>sequence\<close> to 0; otherwise it sets \<open>sequence\<close> to
  \<open>(sequence + 1) mod 2^8\<close>, and increments \<open>elapsedTime\<close> by 1 exactly when the new
  sequence is 0. The start time and the machine id stay as they are.
\<close>

theorem nextID_state_update:
  fixes sf :: Snooflake and now :: int64
  defines "current \<equiv> currentElapsedTime (startTime sf) now"
    and "sf' \<equiv> snd (nextID sf now)"
  shows "(elapsedTime sf <s current \<longrightarrow>
            elapsedTime sf' = current \<and> sequence sf' = 0)
       \<and> (\<not> elapsedTime sf <s current \<longrightarrow>
            unat (sequence sf') = (unat (sequence sf) + 1) mod 2 ^ 8
          \<and> (sequence sf' = 0 \<longrightarrow> elapsedTime sf' = elapsedTime sf + 1)
          \<and> (sequence sf' \<noteq> 0 \<longrightarrow> elapsedTime sf' = elapsedTime sf))
       \<and> startTime sf' = startTime sf \<and> machineID sf' = machineID sf"
  unfolding current_def sf'_def
  using and_255_mod [of "sequence sf"]
  by (auto simp: nextID_state)

theorem nextID_state_update_witness:
  "((0 :: int64) <s currentElapsedTime 0 5000000
     \<and> snd (nextID \<lparr>startTime = 0, elapsedTime = 0, sequence = 255, machineID = 1\<rparr> 5000000)
       = \<lparr>startTime = 0, elapsedTime = 5, sequence = 0, machineID = 1\<rparr>)
   \<and> (\<not> (5 :: int64) <s currentElapsedTime 0 5000000
     \<and> snd (nextID \<lparr>startTime = 0, elapsedTime = 5, sequence = 3, machineID = 1\<rparr> 5000000)
       = \<lparr>startTime = 0, elapsedTime = 5, sequence = 4, machineID = 1\<rparr>
     \<and> snd (nextID \<lparr>startTime = 0, elapsedTime = 5, sequence = 255, machineID = 1\<rparr> 5000000)
       = \<lparr>startTime = 0, elapsedTime = 6, sequence = 0, machineID = 1\<rparr>)"
  using
    nextID_state_update [of "\<lparr>startTime = 0, elapsedTime = 0, sequence = 255, machineID = 1\<rparr>" 5000000]
    nextID_state_update [of "\<lparr>startTime = 0, elapsedTime = 5, sequence = 3, machineID = 1\<rparr>" 5000000]
    nextID_state_update [of "\<lparr>startTime = 0, elapsedTime = 5, sequence = 255, machineID = 1\<rparr>" 5000000]
  by (simp add: currentElapsedTime_5 nextID_state word_sless_alt)

text \<open>
  Claim C10. A failing allocation is not atomic: whenever \<open>nextID\<close> returns the
  time-overflow error, the generator it leaves is the one the state update produced
  (the check in \<open>toID\<close> comes after it), its \<open>elapsedTime\<close> is at least \<open>2^39\<close>, and
  at least one of \<open>elapsedTime\<close> and \<open>sequence\<close> differs from its value before the call.
\<close>

theorem nextID_failure_not_atomic:
  fixes sf :: Snooflake and now :: int64
  defines "current \<equiv> currentElapsedTime (startTime sf) now"
    and "sf' \<equiv> snd (nextID sf now)"
  assumes "fst (nextID sf now) = Inl ErrOverTimeLimit"
  shows "sf' = (if elapsedTime sf <s current
                then sf\<lparr>elapsedTime := current, sequence := 0\<rparr>
                else if (sequence sf + 1) AND 255 = 0
                then sf\<lparr>elapsedTime := elapsedTime sf + 1, sequence := 0\<rparr>
                else sf\<lparr>sequence := (sequence sf + 1) AND 255\<rparr>)
       \<and> (elapsedTime sf' \<noteq> elapsedTime sf \<or> sequence sf' \<noteq> sequence sf)
       \<and> 2 ^ 39 \<le>s elapsedTime sf'"
proof -
  have st: "sf' = (if elapsedTime sf <s current
                then sf\<lparr>elapsedTime := current, sequence := 0\<rparr>
                else if (sequence sf + 1) AND 255 = 0
                then sf\<lparr>elapsedTime := elapsedTime sf + 1, sequence := 0\<rparr>
                else sf\<lparr>sequence := (sequence sf + 1) AND 255\<rparr>)"
    unfolding sf'_def current_def by (rule nextID_state)
  have ch: "elapsedTime sf' \<noteq> elapsedTime sf \<or> sequence sf' \<noteq> sequence sf"
    using seq_step_changes [of "sequence sf"]
    by (auto simp: st)
  have "toID sf' = Inl ErrOverTimeLimit"
    using assms(3) unfolding sf'_def by (simp add: nextID_result)
  then have ov: "2 ^ 39 \<le>s elapsedTime sf'"
    by (simp add: toID_def BitLenTime_def split: if_splits)
  from st ch ov show ?thesis by blast
qed

theorem nextID_failure_not_atomic_witness:
  "fst (nextID \<lparr>startTime = 0, elapsedTime = 2 ^ 39 - 1, sequence = 255, machineID = 1\<rparr> 5000000)
     = Inl ErrOverTimeLimit
   \<and> snd (nextID \<lparr>startTime = 0, elapsedTime = 2 ^ 39 - 1, sequence = 255, machineID = 1\<rparr> 5000000)
     = \<lparr>startTime = 0, elapsedTime = 2 ^ 39, sequence = 0, machineID = 1\<rparr>"
proof -
  have h: "fst (nextID \<lparr>startTime = 0, elapsedTime = 2 ^ 39 - 1, sequence = 255, machineID = 1\<rparr> 5000000)
     = Inl ErrOverTimeLimit"
    by (simp add: nextID_result nextID_state currentElapsedTime_5 toID_def BitLenTime_def
        word_sless_alt word_sle_eq)
  show ?thesis
    using h nextID_failure_not_atomic [OF h]
    by (simp add: currentElapsedTime_5 word_sless_alt)
qed

subsection \<open>Consecutive allocations\<close>

lemma packed_plus:
  fixes t :: "64 word" and s m :: "16 word"
  assumes "t < 2 ^ 39" "s < 2 ^ 8"
  shows "push_bit 24 t OR push_bit 16 (ucast s) OR ucast m
         = push_bit 24 t + (push_bit 16 (ucast s) + ucast m)"
proof -
  have 1: "push_bit 16 (ucast s :: 64 word) + ucast m = push_bit 16 (ucast s) OR ucast m"
    by (rule disjunctive_add_eq_or, rule bit_word_eqI)
       (auto simp: bit_simps dest: bit_imp_le_length)
  have 2: "push_bit 24 t + (push_bit 16 (ucast s) OR (ucast m :: 64 word))
           = push_bit 24 t OR (push_bit 16 (ucast s) OR ucast m)"
    using bit_below [OF assms(2)]
    by - (rule disjunctive_add_eq_or, rule bit_word_eqI,
          auto simp: bit_simps dest: bit_imp_le_length)
  show ?thesis by (simp add: 1 2 or.assoc)
qed

lemma packed_unat:
  fixes t :: "64 word" and s m :: "16 word"
  assumes "t < 2 ^ 39" "s < 2 ^ 8"
  shows "unat (push_bit 24 t OR push_bit 16 (ucast s) OR ucast m)
         = unat t * 2 ^ 24 + unat s * 2 ^ 16 + unat m"
proof -
  have tb: "unat t < 2 ^ 39" using assms(1) by (simp add: word_less_nat_alt)
  have sb: "unat s < 2 ^ 8" using assms(2) by (simp add: word_less_nat_alt)
  have mb: "unat m < 2 ^ 16" using unsigned_less [of m] by simp
  have "(of_nat (unat t * 2 ^ 24 + unat s * 2 ^ 16 + unat m) :: 64 word)
        = push_bit 24 t + (push_bit 16 (ucast s) + ucast m)"
    by (simp add: push_bit_eq_mult)
  moreover have "unat t * 2 ^ 24 + unat s * 2 ^ 16 + unat m < 2 ^ LENGTH(64)"
    using tb sb mb by simp
  ultimately have "unat (push_bit 24 t + (push_bit 16 (ucast s) + ucast m))
      = unat t * 2 ^ 24 + unat s * 2 ^ 16 + unat m"
    by (rule of_nat_inverse)
  then show ?thesis
    by (simp only: packed_plus [OF assms])
qed

lemma sint64_succ:
  fixes e :: "64 word"
  assumes "sint e < 2 ^ 63 - 1"
  shows "sint (e + 1) = sint e + 1"
proof -
  have "- (2 ^ 63) \<le> sint e" using sint_ge [of e] by simp
  then show ?thesis
    using assms by (simp add: sint_word_ariths signed_take_bit_int_eq_self)
qed

lemma sint64_unat:
  fixes e :: "64 word"
  assumes "0 \<le> sint e"
  shows "int (unat e) = sint e"
  using sint64_nonneg_uint [OF assms] by simp

lemma toID_Inr_iff:
  "toID sf = Inr y \<longleftrightarrow>
     sint (elapsedTime sf) < 2 ^ 39
     \<and> y = push_bit 24 (elapsedTime sf) OR push_bit 16 (ucast (sequence sf))
            OR ucast (machineID sf)"
  by (auto simp: toID_def BitLenTime_def BitLenSequence_def BitLenMachineID_def
      word_sle_eq)

lemma toID_Inl_iff:
  "toID sf = Inl err \<longleftrightarrow> 2 ^ 39 \<le> sint (elapsedTime sf) \<and> err = ErrOverTimeLimit"
  by (auto simp: toID_def BitLenTime_def word_sle_eq)

lemma seq_step_bound:
  fixes s :: uint16
  shows "(s + 1) AND 255 < 2 ^ 8"
proof -
  have "(s + 1) AND 255 \<le> 255" by (rule word_and_le1)
  then show ?thesis by (simp add: word_le_nat_alt word_less_nat_alt)
qed

lemma nextID_elapsedTime_cases:
  fixes sf :: Snooflake and now :: int64
  defines "c \<equiv> currentElapsedTime (startTime sf) now"
    and "sf' \<equiv> snd (nextID sf now)"
  shows "(sint (elapsedTime sf) < sint c \<and> elapsedTime sf' = c \<and> sequence sf' = 0)
       \<or> (sint c \<le> sint (elapsedTime sf) \<and> elapsedTime sf' = elapsedTime sf
           \<and> sequence sf' = (sequence sf + 1) AND 255 \<and> sequence sf' \<noteq> 0)
       \<or> (sint c \<le> sint (elapsedTime sf) \<and> elapsedTime sf' = elapsedTime sf + 1
           \<and> (sequence sf + 1) AND 255 = 0 \<and> sequence sf' = 0)"
  unfolding c_def sf'_def
  by (auto simp: nextID_state word_sless_alt)

lemma nextID_keeps:
  "startTime (snd (nextID sf now)) = startTime sf"
  "machineID (snd (nextID sf now)) = machineID sf"
  by (simp_all add: nextID_state)

lemma nextID_success_state:
  assumes nn: "0 \<le> sint (elapsedTime sf)"
    and nw: "sint (elapsedTime sf) < 2 ^ 63 - 1"
    and ok: "fst (nextID sf now) = Inr y"
  shows "0 \<le> sint (elapsedTime (snd (nextID sf now)))
       \<and> sint (elapsedTime (snd (nextID sf now))) < 2 ^ 39
       \<and> sequence (snd (nextID sf now)) < 2 ^ 8
       \<and> toID (snd (nextID sf now)) = Inr y"
proof -
  let ?sf' = "snd (nextID sf now)"
  have t: "toID ?sf' = Inr y" using ok by (simp add: nextID_result)
  then have lt: "sint (elapsedTime ?sf') < 2 ^ 39" by (simp add: toID_Inr_iff)
  have ge: "0 \<le> sint (elapsedTime ?sf')"
    using nextID_elapsedTime_cases [of sf now] nn sint64_succ [OF nw] by auto
  have sq: "sequence ?sf' < 2 ^ 8"
    using nextID_elapsedTime_cases [of sf now] seq_step_bound [of "sequence sf"] by auto
  from ge lt sq t show ?thesis by simp
qed

lemma time_field_fits_sint:
  fixes t :: "64 word"
  assumes "0 \<le> sint t" "sint t < 2 ^ 39"
  shows "t < 2 ^ 39"
  using assms by (intro time_field_fits) (simp_all add: word_sle_eq word_sless_alt)

lemma issued_unat:
  assumes nn: "0 \<le> sint (elapsedTime sf)"
    and lt: "sint (elapsedTime sf) < 2 ^ 39"
    and sq: "sequence sf < 2 ^ 8"
    and x: "toID sf = Inr x"
  shows "unat x = unat (elapsedTime sf) * 2 ^ 24 + unat (sequence sf) * 2 ^ 16
                  + unat (machineID sf)"
proof -
  have "x = push_bit 24 (elapsedTime sf) OR push_bit 16 (ucast (sequence sf))
            OR ucast (machineID sf)"
    using x by (simp add: toID_Inr_iff)
  then show ?thesis
    by (simp only: packed_unat [OF time_field_fits_sint [OF nn lt] sq])
qed

lemma nextID_increases:
  assumes nn: "0 \<le> sint (elapsedTime sf)"
    and lt: "sint (elapsedTime sf) < 2 ^ 39"
    and sq: "sequence sf < 2 ^ 8"
    and x: "toID sf = Inr x"
    and ok: "fst (nextID sf now) = Inr y"
  shows "x < y"
proof -
  let ?sf' = "snd (nextID sf now)"
  let ?e = "elapsedTime sf" and ?e' = "elapsedTime ?sf'"
  let ?s = "sequence sf" and ?s' = "sequence ?sf'"
  have nw: "sint ?e < 2 ^ 63 - 1" using lt by simp
  have G': "0 \<le> sint ?e'" "sint ?e' < 2 ^ 39" "?s' < 2 ^ 8" "toID ?sf' = Inr y"
    using nextID_success_state [OF nn nw ok] by simp_all
  have X: "unat x = unat ?e * 2 ^ 24 + unat ?s * 2 ^ 16 + unat (machineID sf)"
    by (rule issued_unat [OF nn lt sq x])
  have Y: "unat y = unat ?e' * 2 ^ 24 + unat ?s' * 2 ^ 16 + unat (machineID sf)"
    using issued_unat [OF G'] by (simp add: nextID_keeps)
  have ue: "int (unat ?e) = sint ?e" by (rule sint64_unat [OF nn])
  have ue': "int (unat ?e') = sint ?e'" by (rule sint64_unat [OF G'(1)])
  have sb: "unat ?s < 2 ^ 8" using sq by (simp add: word_less_nat_alt)
  consider
    (advance) "sint ?e < sint ?e'" "?s' = 0"
  | (same) "?e' = ?e" "?s' = (?s + 1) AND 255" "?s' \<noteq> 0"
    using nextID_elapsedTime_cases [of sf now] sint64_succ [OF nw] by auto
  then have "unat x < unat y"
  proof cases
    case advance
    then have "unat ?e < unat ?e'" using ue ue' by linarith
    then have "(unat ?e + 1) * 2 ^ 24 \<le> unat ?e' * 2 ^ 24" by simp
    then show ?thesis using sb by (simp add: X Y)
  next
    case same
    have "unat ?s' = (unat ?s + 1) mod 2 ^ 8"
      using same(2) and_255_mod [of ?s] by simp
    moreover have "unat ?s' \<noteq> 0" using same(3) by (simp add: unat_eq_0)
    ultimately have "unat ?s' = unat ?s + 1"
      using sb by (cases "unat ?s = 255") simp_all
    then show ?thesis using same(1) by (simp add: X Y)
  qed
  then show ?thesis by (simp add: word_less_nat_alt)
qed

lemma NextID_calls_Cons:
  "NextID_calls sf (now # nows) =
     (fst (nextID sf now) # fst (NextID_calls (snd (nextID sf now)) nows),
      snd (NextID_calls (snd (nextID sf now)) nows))"
  by (simp add: NextID_def split: prod.splits)

lemma NextID_calls_length: "length (fst (NextID_calls sf nows)) = length nows"
  by (induction nows arbitrary: sf) (simp_all add: NextID_calls_Cons del: NextID_calls.simps(2))

lemma NextID_calls_sorted_from:
  assumes "0 \<le> sint (elapsedTime sf)"
    and "sint (elapsedTime sf) < 2 ^ 39"
    and "sequence sf < 2 ^ 8"
    and "toID sf = Inr x"
    and "fst (NextID_calls sf nows) = map Inr ids"
  shows "sorted_wrt (<) (x # ids)"
  using assms
proof (induction nows arbitrary: sf x ids)
  case Nil
  then show ?case by simp
next
  case (Cons now nows)
  let ?sf' = "snd (nextID sf now)"
  from Cons.prems(5) obtain y ids' where
    ids: "ids = y # ids'" and ok: "fst (nextID sf now) = Inr y"
    and rest: "fst (NextID_calls ?sf' nows) = map Inr ids'"
    by (cases ids) (auto simp: NextID_calls_Cons simp del: NextID_calls.simps(2))
  have nw: "sint (elapsedTime sf) < 2 ^ 63 - 1" using Cons.prems(2) by simp
  have G': "0 \<le> sint (elapsedTime ?sf')" "sint (elapsedTime ?sf') < 2 ^ 39"
    "sequence ?sf' < 2 ^ 8" "toID ?sf' = Inr y"
    using nextID_success_state [OF Cons.prems(1) nw ok] by simp_all
  have "sorted_wrt (<) (y # ids')"
    by (rule Cons.IH [OF G' rest])
  moreover have "x < y"
    by (rule nextID_increases [OF Cons.prems(1-4) ok])
  ultimately show ?case
    by (auto simp: ids)
qed

text \<open>
  Claim C2. On one generator whose \<open>elapsedTime\<close> is not negative and not the largest
  \<open>int64\<close> (a new generator has 0, and each call raises it by the clock or by 1), for
  every list of clock readings, stalled and backward ones too: when the consecutive
  calls of \<open>NextID\<close>, one per reading, all succeed, they return as many values as
  there are calls, strictly increasing as \<open>uint64\<close> in call order.
\<close>

theorem NextID_strictly_increasing:
  assumes "0 \<le> sint (elapsedTime sf)"
    and "sint (elapsedTime sf) < 2 ^ 63 - 1"
    and "fst (NextID_calls sf nows) = map Inr ids"
  shows "length ids = length nows \<and> sorted_wrt (<) ids"
proof -
  have len: "length ids = length nows"
    using NextID_calls_length [of sf nows] assms(3) by simp
  have "sorted_wrt (<) ids"
  proof (cases nows)
    case Nil
    then show ?thesis using assms(3) by simp
  next
    case (Cons now nows')
    let ?sf' = "snd (nextID sf now)"
    from assms(3) Cons obtain y ids' where
      ids: "ids = y # ids'" and ok: "fst (nextID sf now) = Inr y"
      and rest: "fst (NextID_calls ?sf' nows') = map Inr ids'"
      by (cases ids) (auto simp: NextID_calls_Cons simp del: NextID_calls.simps(2))
    have G': "0 \<le> sint (elapsedTime ?sf')" "sint (elapsedTime ?sf') < 2 ^ 39"
      "sequence ?sf' < 2 ^ 8" "toID ?sf' = Inr y"
      using nextID_success_state [OF assms(1,2) ok] by simp_all
    have "sorted_wrt (<) (y # ids')"
      by (rule NextID_calls_sorted_from [OF G' rest])
    then show ?thesis by (simp add: ids)
  qed
  with len show ?thesis by simp
qed

lemmas clock_eval =
  currentElapsedTime_def toSnooflakeTime_def div64_def snooflakeTimeUnit_def

theorem NextID_strictly_increasing_witness:
  "(0 \<le> sint (5 :: int64) \<and> sint (5 :: int64) < 2 ^ 63 - 1
    \<and> fst (NextID_calls \<lparr>startTime = 0, elapsedTime = 5, sequence = 254, machineID = 1\<rparr>
         [5000000, 3000000, 6000000, 9000000])
      = map Inr [100597761, 100663297, 100728833, 150994945])
   \<and> length [100597761, 100663297, 100728833, 150994945 :: uint64]
      = length [5000000, 3000000, 6000000, 9000000 :: int64]
   \<and> sorted_wrt (<) [100597761, 100663297, 100728833, 150994945 :: uint64]"
proof -
  have h1: "0 \<le> sint (elapsedTime \<lparr>startTime = 0, elapsedTime = 5, sequence = 254, machineID = 1\<rparr>)"
    by simp
  have h2: "sint (elapsedTime \<lparr>startTime = 0, elapsedTime = 5, sequence = 254, machineID = 1\<rparr>)
            < 2 ^ 63 - 1"
    by simp
  have h3: "fst (NextID_calls \<lparr>startTime = 0, elapsedTime = 5, sequence = 254, machineID = 1\<rparr>
         [5000000, 3000000, 6000000, 9000000])
      = map Inr [100597761, 100663297, 100728833, 150994945]"
    by (simp add: NextID_calls_Cons nextID_result nextID_state clock_eval toID_def
        BitLenTime_def BitLenSequence_def BitLenMachineID_def word_sless_alt word_sle_eq
        del: NextID_calls.simps(2))
  show ?thesis
    using h1 h2 h3 NextID_strictly_increasing [OF h1 h2 h3] by simp
qed

lemma NextID_calls_overflow_stays:
  assumes "2 ^ 39 \<le> sint (elapsedTime sf)"
    and "sint (elapsedTime sf) + int (length nows) < 2 ^ 63"
    and "\<forall>n\<in>set nows. sint (currentElapsedTime (startTime sf) n) + int (length nows) < 2 ^ 63"
  shows "\<forall>r\<in>set (fst (NextID_calls sf nows)). r = Inl ErrOverTimeLimit"
  using assms
proof (induction nows arbitrary: sf)
  case Nil
  then show ?case by simp
next
  case (Cons now nows)
  let ?sf' = "snd (nextID sf now)"
  let ?c = "currentElapsedTime (startTime sf) now"
  have nw: "sint (elapsedTime sf) < 2 ^ 63 - 1" using Cons.prems(2) by simp
  have cb: "sint ?c + int (length nows) + 1 < 2 ^ 63" using Cons.prems(3) by simp
  have e': "sint (elapsedTime sf) \<le> sint (elapsedTime ?sf')
            \<and> sint (elapsedTime ?sf') + int (length nows) < 2 ^ 63"
    using nextID_elapsedTime_cases [of sf now] sint64_succ [OF nw] Cons.prems(2) cb
    by auto
  then have ov: "2 ^ 39 \<le> sint (elapsedTime ?sf')" using Cons.prems(1) by simp
  then have "fst (nextID sf now) = Inl ErrOverTimeLimit"
    by (simp add: nextID_result toID_Inl_iff)
  moreover have "\<forall>r\<in>set (fst (NextID_calls ?sf' nows)). r = Inl ErrOverTimeLimit"
  proof (rule Cons.IH [OF ov])
    show "sint (elapsedTime ?sf') + int (length nows) < 2 ^ 63" using e' by simp
    show "\<forall>n\<in>set nows. sint (currentElapsedTime (startTime ?sf') n) + int (length nows) < 2 ^ 63"
      using Cons.prems(3) by (auto simp: nextID_keeps)
  qed
  ultimately show ?case
    by (simp add: NextID_calls_Cons del: NextID_calls.simps(2))
qed

text \<open>
  Claim C5. An allocation fails with the time-overflow error exactly when the
  \<open>elapsedTime\<close> its state update leaves is at least \<open>2^39\<close>, and it fails with no other
  error. Once an allocation has failed so, every later allocation on the generator
  fails with the same error, whatever the clock reads, as long as \<open>elapsedTime\<close> stays
  inside \<open>int64\<close>: the elapsed time and the clock readings are below \<open>2^62\<close> and fewer
  than \<open>2^62\<close> calls follow, so that no increment wraps around.
\<close>

theorem NextID_overflow_permanent:
  fixes sf :: Snooflake and now :: int64 and nows :: "int64 list"
  defines "sf' \<equiv> snd (NextID sf now)"
  shows "(fst (NextID sf now) = Inl ErrOverTimeLimit \<longleftrightarrow> 2 ^ 39 \<le>s elapsedTime sf')
       \<and> (\<forall>err. fst (NextID sf now) = Inl err \<longrightarrow> err = ErrOverTimeLimit)
       \<and> (fst (NextID sf now) = Inl ErrOverTimeLimit
            \<and> sint (elapsedTime sf') < 2 ^ 62
            \<and> (\<forall>n\<in>set nows. sint (currentElapsedTime (startTime sf) n) < 2 ^ 62)
            \<and> length nows < 2 ^ 62 \<longrightarrow>
            (\<forall>r\<in>set (fst (NextID_calls sf' nows)). r = Inl ErrOverTimeLimit))"
proof -
  have iff: "fst (NextID sf now) = Inl ErrOverTimeLimit \<longleftrightarrow> 2 ^ 39 \<le>s elapsedTime sf'"
    unfolding sf'_def by (simp add: NextID_def nextID_result toID_Inl_iff word_sle_eq)
  have only: "\<forall>err. fst (NextID sf now) = Inl err \<longrightarrow> err = ErrOverTimeLimit"
    by (simp add: NextID_def nextID_result toID_Inl_iff)
  have perm: "\<forall>r\<in>set (fst (NextID_calls sf' nows)). r = Inl ErrOverTimeLimit"
    if f: "fst (NextID sf now) = Inl ErrOverTimeLimit"
      and e: "sint (elapsedTime sf') < 2 ^ 62"
      and c: "\<forall>n\<in>set nows. sint (currentElapsedTime (startTime sf) n) < 2 ^ 62"
      and n: "length nows < 2 ^ 62"
  proof (rule NextID_calls_overflow_stays)
    show "2 ^ 39 \<le> sint (elapsedTime sf')"
      using f iff by (simp add: word_sle_eq)
    have l: "int (length nows) < 2 ^ 62" using n by simp
    show "sint (elapsedTime sf') + int (length nows) < 2 ^ 63"
      using e l by simp
    show "\<forall>n\<in>set nows. sint (currentElapsedTime (startTime sf') n) + int (length nows) < 2 ^ 63"
      using c l unfolding sf'_def by (auto simp: NextID_def nextID_keeps)
  qed
  from iff only perm show ?thesis by blast
qed

theorem NextID_overflow_permanent_witness:
  "(sint (elapsedTime (snd (NextID
        \<lparr>startTime = 0, elapsedTime = 549755813887, sequence = 255, machineID = 1\<rparr> 5000000)))
      < 2 ^ 62
    \<and> sint (currentElapsedTime 0 5000000) < 2 ^ 62
    \<and> sint (currentElapsedTime 0 600000000000000000) < 2 ^ 62
    \<and> sint (currentElapsedTime 0 0) < 2 ^ 62
    \<and> length [5000000, 600000000000000000, 0 :: int64] < 2 ^ 62)
   \<and> fst (NextID \<lparr>startTime = 0, elapsedTime = 549755813887, sequence = 255, machineID = 1\<rparr> 5000000)
      = Inl ErrOverTimeLimit
   \<and> snd (NextID \<lparr>startTime = 0, elapsedTime = 549755813887, sequence = 255, machineID = 1\<rparr> 5000000)
      = \<lparr>startTime = 0, elapsedTime = 549755813888, sequence = 0, machineID = 1\<rparr>
   \<and> fst (NextID_calls \<lparr>startTime = 0, elapsedTime = 549755813888, sequence = 0, machineID = 1\<rparr>
        [5000000, 600000000000000000, 0])
      = [Inl ErrOverTimeLimit, Inl ErrOverTimeLimit, Inl ErrOverTimeLimit]"
proof -
  let ?sf = "\<lparr>startTime = 0, elapsedTime = 549755813887, sequence = 255, machineID = 1\<rparr>"
  let ?sf' = "\<lparr>startTime = 0, elapsedTime = 549755813888, sequence = 0, machineID = 1\<rparr>"
  let ?nows = "[5000000, 600000000000000000, 0 :: int64]"
  have st: "snd (NextID ?sf 5000000) = ?sf'"
    by (simp add: NextID_def nextID_state clock_eval word_sless_alt)
  have a: "sint (elapsedTime (snd (NextID ?sf 5000000))) < 2 ^ 62"
    by (simp only: st) simp
  have b: "\<forall>n\<in>set ?nows. sint (currentElapsedTime (startTime ?sf) n) < 2 ^ 62"
    by (simp add: clock_eval)
  have c: "length ?nows < 2 ^ 62"
    by simp
  have f: "fst (NextID ?sf 5000000) = Inl ErrOverTimeLimit"
    by (simp add: NextID_def nextID_result toID_Inl_iff)
       (simp add: nextID_state clock_eval word_sless_alt)
  have all: "\<forall>r\<in>set (fst (NextID_calls ?sf' ?nows)). r = Inl ErrOverTimeLimit"
    using NextID_overflow_permanent [of ?sf 5000000 ?nows] a b c f by (simp only: st) blast
  have len: "length (fst (NextID_calls ?sf' ?nows)) = 3"
    by (simp only: NextID_calls_length) simp
  have rs: "fst (NextID_calls ?sf' ?nows)
            = [Inl ErrOverTimeLimit, Inl ErrOverTimeLimit, Inl ErrOverTimeLimit]"
  proof -
    obtain r1 r2 r3 where e: "fst (NextID_calls ?sf' ?nows) = [r1, r2, r3]"
      using len by (auto simp: length_Suc_conv numeral_3_eq_3)
    then show ?thesis using all by simp
  qed
  from a b c f st rs show ?thesis by simp
qed

subsection \<open>The time unit and construction\<close>

lemma sint_toSnooflakeTime: "sint (toSnooflakeTime t) = sint t sdiv 1000000"
proof -
  have d: "0 \<le> x div 1000000 \<and> x div 1000000 \<le> x" if "0 \<le> x" for x :: int
    using that zdiv_mono2 [of x 1 1000000] by (simp add: pos_imp_zdiv_nonneg_iff)
  have b: "- (2 ^ 63) \<le> sint t" "sint t < 2 ^ 63"
    using sint_ge [of t] sint_lt [of t] by simp_all
  have "- (2 ^ 63) \<le> sint t sdiv 1000000 \<and> sint t sdiv 1000000 < 2 ^ 63"
  proof (cases "0 \<le> sint t")
    case True
    then have "sint t sdiv 1000000 = sint t div 1000000"
      by (simp add: signed_divide_int_def sgn_if)
    moreover have "0 \<le> sint t div 1000000" "sint t div 1000000 \<le> sint t"
      using d [of "sint t"] True by simp_all
    ultimately show ?thesis using b by simp
  next
    case False
    then have "sint t sdiv 1000000 = - ((- sint t) div 1000000)"
      by (simp add: signed_divide_int_def sgn_if)
    moreover have "0 \<le> (- sint t) div 1000000" "(- sint t) div 1000000 \<le> - sint t"
      using d [of "- sint t"] False by simp_all
    ultimately show ?thesis using b by simp
  qed
  then show ?thesis
    by (simp add: toSnooflakeTime_def div64_def snooflakeTimeUnit_def
        sint_sbintrunc' signed_take_bit_int_eq_self)
qed

lemma toSnooflakeTime_nonneg:
  assumes "0 \<le> sint t"
  shows "toSnooflakeTime t = word_of_int (sint t div 1000000)"
  using assms
  by (simp add: toSnooflakeTime_def div64_def snooflakeTimeUnit_def signed_divide_int_def
      sgn_if)

lemma elapsed_25ms:
  fixes T0 :: int64
  assumes "0 \<le> sint T0" "sint T0 + 25000000 < 2 ^ 63"
  shows "currentElapsedTime (toSnooflakeTime T0) (T0 + 25000000) = 25"
proof -
  have s: "sint (T0 + 25000000) = sint T0 + 25000000"
    using assms by (simp add: sint_word_ariths signed_take_bit_int_eq_self)
  have "(sint T0 + 25000000) div 1000000 = sint T0 div 1000000 + 25"
    by simp
  then have "toSnooflakeTime (T0 + 25000000) = word_of_int (sint T0 div 1000000) + 25"
    using assms(1) s by (simp add: toSnooflakeTime_nonneg)
  then show ?thesis
    using assms(1) by (simp add: currentElapsedTime_def toSnooflakeTime_nonneg)
qed

lemma sint_UnixNano:
  assumes "- (2 ^ 63) \<le> t" and "t < 2 ^ 63"
  shows "sint (UnixNano t) = t"
  using assms by (simp add: UnixNano_def sint_sbintrunc' signed_take_bit_int_eq_self)

lemma NewSnooflake_Some:
  assumes "NewSnooflake st now ifaddrs = Some sf"
  shows "elapsedTime sf = 0" "sequence sf = 255"
    "startTime sf = (if StartTime st = zeroTime
                     then toSnooflakeTime (UnixNano Date_2014_09_01)
                     else toSnooflakeTime (UnixNano (StartTime st)))"
    "(case MachineID st of None \<Rightarrow> lower16BitPrivateIP ifaddrs | Some f \<Rightarrow> f)
       = Inr (machineID sf)"
  using assms
  by (auto simp: NewSnooflake_def IsZero_def Let_def BitLenSequence_def
      split: if_splits option.splits sum.splits)

text \<open>
  The claim C3 as worded takes the unit of time to be 10 milliseconds, so that 25
  milliseconds after the start time the first ID carries time 2. \<open>snooflakeTimeUnit\<close>
  is \<open>1e6\<close> nanoseconds, 1 millisecond (and \<open>sleepTime\<close> counts overtime in
  milliseconds): with the start time 2014-09-01 00:00:00 UTC and the clock 25
  milliseconds later, the first ID carries time 25.
\<close>

theorem time_unit_counterexample:
  "NewSnooflake \<lparr>StartTime = 1409529600000000000, MachineID = Some (Inr 1),
                  CheckMachineID = None\<rparr> 1409529600025000000 (Inr [])
     = Some \<lparr>startTime = 1409529600000, elapsedTime = 0, sequence = 255, machineID = 1\<rparr>
   \<and> fst (NextID \<lparr>startTime = 1409529600000, elapsedTime = 0, sequence = 255, machineID = 1\<rparr>
          1409529600025000000) = Inr 419430401
   \<and> Decompose 419430401 ''time'' = Some 25
   \<and> Decompose 419430401 ''time'' \<noteq> Some 2"
  by (simp add: NewSnooflake_def After_def IsZero_def zeroTime_def UnixNano_def Let_def
      BitLenSequence_def clock_eval word_sless_alt NextID_def nextID_result nextID_state
      toID_Inr_iff Decompose_fields)

text \<open>
  Claim C3, amended. The unit of the time field is 1 millisecond (\<open>10^6\<close>
  nanoseconds): \<open>toSnooflakeTime\<close> divides the UTC nanoseconds by \<open>10^6\<close>, truncating,
  and \<open>currentElapsedTime\<close> subtracts the start time in that unit. For a generator
  made with start time \<open>T0\<close>, at or after 1970-01-01 and with \<open>T0 + 25ms\<close> in the range
  of \<open>int64\<close> nanoseconds, the first allocation with the clock at \<open>T0 + 25ms\<close>
  succeeds and decodes to time 25 and sequence 0.
\<close>

theorem first_allocation_time:
  assumes "NewSnooflake st now0 ifaddrs = Some sf"
    and "StartTime st = T0"
    and "0 \<le> T0"
    and "T0 + 25000000 < 2 ^ 63"
  shows "sint (toSnooflakeTime now) = sint now sdiv 1000000
       \<and> currentElapsedTime (startTime sf) now
         = toSnooflakeTime now - toSnooflakeTime (UnixNano T0)
       \<and> (\<exists>x. fst (NextID sf (UnixNano (T0 + 25000000))) = Inr x
              \<and> Decompose x ''time'' = Some 25 \<and> Decompose x ''sequence'' = Some 0)"
proof -
  have nz: "StartTime st \<noteq> zeroTime"
    using assms(2,3) by (simp add: zeroTime_def)
  have sf: "elapsedTime sf = 0" "sequence sf = 255"
    "startTime sf = toSnooflakeTime (UnixNano T0)"
    using NewSnooflake_Some [OF assms(1)] assms(2) nz by simp_all
  have r: "sint (UnixNano T0) = T0"
    using assms(3,4) by (intro sint_UnixNano) simp_all
  have u: "UnixNano (T0 + 25000000) = UnixNano T0 + 25000000"
    by (simp add: UnixNano_def)
  have c: "currentElapsedTime (toSnooflakeTime (UnixNano T0)) (UnixNano T0 + 25000000) = 25"
    using assms(3,4) by (intro elapsed_25ms) (simp_all add: r)
  let ?sf' = "snd (nextID sf (UnixNano T0 + 25000000))"
  have st: "elapsedTime ?sf' = 25" "sequence ?sf' = 0"
    by (simp_all add: nextID_state c sf word_sless_alt)
  let ?x = "push_bit 24 (25 :: int64) OR push_bit 16 (ucast (0 :: uint16))
            OR ucast (machineID ?sf')"
  have x: "fst (NextID sf (UnixNano (T0 + 25000000))) = Inr ?x"
    by (simp add: u NextID_def nextID_result toID_Inr_iff st)
  have t: "(25 :: int64) < 2 ^ 39" and s: "(0 :: uint16) < 2 ^ 8"
    by simp_all
  have "Decompose ?x ''time'' = Some 25"
    by (simp only: Decompose_fields unpack_time [OF t s]) simp
  moreover have "Decompose ?x ''sequence'' = Some 0"
    by (simp only: Decompose_fields unpack_sequence [OF s]) simp
  ultimately have "\<exists>x. fst (NextID sf (UnixNano (T0 + 25000000))) = Inr x
              \<and> Decompose x ''time'' = Some 25 \<and> Decompose x ''sequence'' = Some 0"
    using x by blast
  then show ?thesis
    by (simp add: sint_toSnooflakeTime currentElapsedTime_def sf)
qed

theorem first_allocation_time_witness:
  "(NewSnooflake \<lparr>StartTime = 1409529600000000000, MachineID = Some (Inr 1),
                  CheckMachineID = None\<rparr> 1409529600025000000 (Inr [])
     = Some \<lparr>startTime = 1409529600000, elapsedTime = 0, sequence = 255, machineID = 1\<rparr>
    \<and> (0 :: Time) \<le> 1409529600000000000
    \<and> (1409529600000000000 :: Time) + 25000000 < 2 ^ 63)
   \<and> sint (toSnooflakeTime 1409529600025000000) = 1409529600025
   \<and> fst (NextID \<lparr>startTime = 1409529600000, elapsedTime = 0, sequence = 255, machineID = 1\<rparr>
          1409529600025000000) = Inr 419430401
   \<and> Decompose 419430401 ''time'' = Some 25
   \<and> Decompose 419430401 ''sequence'' = Some 0"
proof -
  let ?st = "\<lparr>StartTime = 1409529600000000000, MachineID = Some (Inr 1),
              CheckMachineID = None\<rparr>"
  let ?sf = "\<lparr>startTime = 1409529600000, elapsedTime = 0, sequence = 255, machineID = 1\<rparr>"
  have h1: "NewSnooflake ?st 1409529600025000000 (Inr []) = Some ?sf"
    by (simp add: NewSnooflake_def After_def IsZero_def zeroTime_def UnixNano_def Let_def
        BitLenSequence_def clock_eval)
  have h2: "StartTime ?st = 1409529600000000000"
    by simp
  have h3: "(0 :: Time) \<le> 1409529600000000000"
    by simp
  have h4: "(1409529600000000000 :: Time) + 25000000 < 2 ^ 63"
    by simp
  have x: "fst (NextID ?sf (UnixNano (1409529600000000000 + 25000000))) = Inr 419430401"
    by (simp add: UnixNano_def clock_eval word_sless_alt NextID_def nextID_result
        nextID_state toID_Inr_iff)
  from first_allocation_time [OF h1 h2 h3 h4, of 1409529600025000000] x
  have "sint (toSnooflakeTime 1409529600025000000) = 1409529600025
      \<and> Decompose 419430401 ''time'' = Some 25
      \<and> Decompose 419430401 ''sequence'' = Some 0"
    by auto
  moreover have "fst (NextID ?sf 1409529600025000000) = Inr 419430401"
    using x by (simp add: UnixNano_def)
  ultimately show ?thesis using h1 h3 h4 by simp
qed

lemma default_startTime: "toSnooflakeTime (UnixNano Date_2014_09_01) = 1409529600000"
  by (simp add: Date_2014_09_01_def UnixNano_def clock_eval)

text \<open>
  Claim C7. \<open>NewSnooflake\<close> returns nil exactly when the start time of the settings is
  an instant strictly after the one the clock gives (whatever the year of either), or
  the machine-id provider (the \<open>MachineID\<close> of the settings, or \<open>lower16BitPrivateIP\<close>
  when there is none) returns an error, or a \<open>CheckMachineID\<close> is given and rejects the
  machine id the provider returned. A generator it returns has sequence \<open>2^8 - 1\<close>,
  elapsed time 0, the provider's machine id, and as start time the \<open>UnixNano\<close> reading
  of the start time of the settings in milliseconds, or that of 2014-09-01 00:00:00
  UTC (1409529600000 milliseconds after 1970-01-01) when the settings have the zero
  time.
\<close>

theorem NewSnooflake_nil_iff:
  fixes st :: Settings and now :: Time and ifaddrs :: "error + Addr list"
  defines "provider \<equiv>
    (case MachineID st of None \<Rightarrow> lower16BitPrivateIP ifaddrs | Some f \<Rightarrow> f)"
  shows "(NewSnooflake st now ifaddrs = None \<longleftrightarrow>
            now < StartTime st
          \<or> (\<exists>err. provider = Inl err)
          \<or> (\<exists>m check. provider = Inr m \<and> CheckMachineID st = Some check \<and> \<not> check m))
       \<and> (\<forall>sf. NewSnooflake st now ifaddrs = Some sf \<longrightarrow>
            sequence sf = 2 ^ 8 - 1 \<and> elapsedTime sf = 0
          \<and> provider = Inr (machineID sf)
          \<and> startTime sf = (if StartTime st = zeroTime
                             then toSnooflakeTime (UnixNano Date_2014_09_01)
                             else toSnooflakeTime (UnixNano (StartTime st))))
       \<and> toSnooflakeTime (UnixNano Date_2014_09_01) = 1409529600000"
proof -
  have nil: "NewSnooflake st now ifaddrs = None \<longleftrightarrow>
            now < StartTime st
          \<or> (\<exists>err. provider = Inl err)
          \<or> (\<exists>m check. provider = Inr m \<and> CheckMachineID st = Some check \<and> \<not> check m)"
    unfolding provider_def
    by (auto simp: NewSnooflake_def After_def Let_def
        split: if_splits option.splits sum.splits)
  have ok: "\<forall>sf. NewSnooflake st now ifaddrs = Some sf \<longrightarrow>
            sequence sf = 2 ^ 8 - 1 \<and> elapsedTime sf = 0
          \<and> provider = Inr (machineID sf)
          \<and> startTime sf = (if StartTime st = zeroTime
                             then toSnooflakeTime (UnixNano Date_2014_09_01)
                             else toSnooflakeTime (UnixNano (StartTime st)))"
    unfolding provider_def using NewSnooflake_Some [of st now ifaddrs] by simp
  from nil ok default_startTime show ?thesis by blast
qed

text \<open>
  The witness: at the clock 2017-07-14 02:40:00 UTC, settings with no start time and
  an accepted machine id give a generator; a start time one hour later gives nil; so
  does the start time 2300-01-01, an instant after the clock whose \<open>UnixNano\<close> reading
  has wrapped around to a negative number; the start time 1600-01-01, before the clock
  and outside the range of \<open>int64\<close> nanoseconds too, gives a generator, with the
  wrapped reading as start time; a provider error, no private address for the default
  provider, and a rejected machine id give nil.
\<close>

theorem NewSnooflake_nil_iff_witness:
  "NewSnooflake \<lparr>StartTime = zeroTime, MachineID = Some (Inr 7),
                  CheckMachineID = Some (\<lambda>m. m = 7)\<rparr> 1500000000000000000 (Inr [])
     = Some \<lparr>startTime = 1409529600000, elapsedTime = 0, sequence = 255, machineID = 7\<rparr>
   \<and> NewSnooflake \<lparr>StartTime = 1500003600000000000, MachineID = Some (Inr 7),
                    CheckMachineID = None\<rparr> 1500000000000000000 (Inr []) = None
   \<and> NewSnooflake \<lparr>StartTime = 10413792000000000000, MachineID = Some (Inr 7),
                    CheckMachineID = None\<rparr> 1500000000000000000 (Inr []) = None
   \<and> NewSnooflake \<lparr>StartTime = - 11676096000000000000, MachineID = Some (Inr 7),
                    CheckMachineID = None\<rparr> 1500000000000000000 (Inr [])
     = Some \<lparr>startTime = 6770648073709, elapsedTime = 0, sequence = 255, machineID = 7\<rparr>
   \<and> NewSnooflake \<lparr>StartTime = zeroTime, MachineID = Some (Inl (ErrOther ''no machine id'')),
                    CheckMachineID = None\<rparr> 1500000000000000000 (Inr []) = None
   \<and> NewSnooflake \<lparr>StartTime = zeroTime, MachineID = None, CheckMachineID = None\<rparr>
       1500000000000000000 (Inr []) = None
   \<and> NewSnooflake \<lparr>StartTime = zeroTime, MachineID = Some (Inr 7),
                    CheckMachineID = Some (\<lambda>m. False)\<rparr> 1500000000000000000 (Inr []) = None"
proof -
  have some: "NewSnooflake st 1500000000000000000 (Inr []) = Some sf"
    if "NewSnooflake st 1500000000000000000 (Inr []) \<noteq> None"
      and "sequence sf = 2 ^ 8 - 1" and "elapsedTime sf = 0"
      and "MachineID st = Some (Inr (machineID sf))"
      and "startTime sf = (if StartTime st = zeroTime
                           then toSnooflakeTime (UnixNano Date_2014_09_01)
                           else toSnooflakeTime (UnixNano (StartTime st)))"
    for st sf
  proof -
    from that(1) obtain sf' where sf': "NewSnooflake st 1500000000000000000 (Inr []) = Some sf'"
      by blast
    have "sf' = sf"
      using NewSnooflake_nil_iff [of st 1500000000000000000 "Inr []"] sf' that(2-5)
      by (cases sf, cases sf') simp
    with sf' show ?thesis by simp
  qed
  have ok: "NewSnooflake \<lparr>StartTime = zeroTime, MachineID = Some (Inr 7),
                CheckMachineID = Some (\<lambda>m. m = 7)\<rparr> 1500000000000000000 (Inr [])
     = Some \<lparr>startTime = 1409529600000, elapsedTime = 0, sequence = 255, machineID = 7\<rparr>"
  proof (rule some)
    show "NewSnooflake \<lparr>StartTime = zeroTime, MachineID = Some (Inr 7),
                CheckMachineID = Some (\<lambda>m. m = 7)\<rparr> 1500000000000000000 (Inr []) \<noteq> None"
      using NewSnooflake_nil_iff [of "\<lparr>StartTime = zeroTime, MachineID = Some (Inr 7),
                CheckMachineID = Some (\<lambda>m. m = 7)\<rparr>" 1500000000000000000 "Inr []"]
      by (simp add: zeroTime_def)
  qed (simp_all add: default_startTime)
  have past: "NewSnooflake \<lparr>StartTime = - 11676096000000000000, MachineID = Some (Inr 7),
                    CheckMachineID = None\<rparr> 1500000000000000000 (Inr [])
     = Some \<lparr>startTime = 6770648073709, elapsedTime = 0, sequence = 255, machineID = 7\<rparr>"
  proof (rule some)
    show "NewSnooflake \<lparr>StartTime = - 11676096000000000000, MachineID = Some (Inr 7),
                    CheckMachineID = None\<rparr> 1500000000000000000 (Inr []) \<noteq> None"
      using NewSnooflake_nil_iff [of "\<lparr>StartTime = - 11676096000000000000,
          MachineID = Some (Inr 7), CheckMachineID = None\<rparr>" 1500000000000000000 "Inr []"]
      by simp
  qed (simp_all add: zeroTime_def UnixNano_def clock_eval)
  have future: "NewSnooflake \<lparr>StartTime = 1500003600000000000, MachineID = Some (Inr 7),
                    CheckMachineID = None\<rparr> 1500000000000000000 (Inr []) = None"
    using NewSnooflake_nil_iff [of "\<lparr>StartTime = 1500003600000000000,
        MachineID = Some (Inr 7), CheckMachineID = None\<rparr>" 1500000000000000000 "Inr []"]
    by simp
  have far: "NewSnooflake \<lparr>StartTime = 10413792000000000000, MachineID = Some (Inr 7),
                    CheckMachineID = None\<rparr> 1500000000000000000 (Inr []) = None"
    using NewSnooflake_nil_iff [of "\<lparr>StartTime = 10413792000000000000,
        MachineID = Some (Inr 7), CheckMachineID = None\<rparr>" 1500000000000000000 "Inr []"]
    by simp
  have perr: "NewSnooflake \<lparr>StartTime = zeroTime,
                    MachineID = Some (Inl (ErrOther ''no machine id'')),
                    CheckMachineID = None\<rparr> 1500000000000000000 (Inr []) = None"
    using NewSnooflake_nil_iff [of "\<lparr>StartTime = zeroTime,
        MachineID = Some (Inl (ErrOther ''no machine id'')), CheckMachineID = None\<rparr>"
        1500000000000000000 "Inr []"]
    by simp
  have noip: "NewSnooflake \<lparr>StartTime = zeroTime, MachineID = None, CheckMachineID = None\<rparr>
       1500000000000000000 (Inr []) = None"
    using NewSnooflake_nil_iff [of "\<lparr>StartTime = zeroTime, MachineID = None,
        CheckMachineID = None\<rparr>" 1500000000000000000 "Inr []"]
    by (simp add: lower16BitPrivateIP_def privateIPv4_def)
  have rej: "NewSnooflake \<lparr>StartTime = zeroTime, MachineID = Some (Inr 7),
                    CheckMachineID = Some (\<lambda>m. False)\<rparr> 1500000000000000000 (Inr []) = None"
    using NewSnooflake_nil_iff [of "\<lparr>StartTime = zeroTime, MachineID = Some (Inr 7),
        CheckMachineID = Some (\<lambda>m. False)\<rparr>" 1500000000000000000 "Inr []"]
    by simp
  from ok future far past perr noip rej show ?thesis by blast
qed

subsection \<open>Batches\<close>

declare NextIDs_loop.simps [simp del]

lemma NextIDs_loop_fails:
  assumes "i + length vs < N"
    and "length ids = N"
    and "fst (NextID_calls sf (map clock [i..<Suc (i + length vs)])) = map Inr vs @ [Inl err]"
  shows "NextIDs_loop clock N i sf ids
         = ((take i ids @ vs @ drop (i + length vs) ids, Some err),
            snd (NextID_calls sf (map clock [i..<Suc (i + length vs)])))"
  using assms
proof (induction vs arbitrary: i sf ids)
  case Nil
  then have f: "fst (nextID sf (clock i)) = Inl err"
    by (simp add: NextID_calls_Cons del: NextID_calls.simps(2))
  then obtain sf' where "nextID sf (clock i) = (Inl err, sf')"
    by (cases "nextID sf (clock i)") simp
  then show ?case
    using Nil.prems(1)
    by (simp add: NextIDs_loop.simps [of clock N i sf ids] NextID_calls_Cons
        del: NextID_calls.simps(2))
next
  case (Cons v vs)
  have up: "[i..<Suc (i + length (v # vs))] = i # [Suc i..<Suc (Suc i + length vs)]"
    by (simp add: upt_conv_Cons del: upt_Suc)
  from Cons.prems(3) have f: "fst (nextID sf (clock i)) = Inr v"
    and rest: "fst (NextID_calls (snd (nextID sf (clock i)))
                 (map clock [Suc i..<Suc (Suc i + length vs)])) = map Inr vs @ [Inl err]"
    by (simp_all only: up list.map NextID_calls_Cons fst_conv list.inject append_Cons)
  let ?sf' = "snd (nextID sf (clock i))"
  have step: "(case nextID sf (clock i) of
                 (Inl err, sf') \<Rightarrow> ((ids, Some err), sf')
               | (Inr v, sf') \<Rightarrow> NextIDs_loop clock N (Suc i) sf' (ids[i := v]))
              = NextIDs_loop clock N (Suc i) ?sf' (ids[i := v])"
    using f by (cases "nextID sf (clock i)") simp
  have i: "i < N" "Suc i + length vs < N" using Cons.prems(1) by simp_all
  have len: "length (ids[i := v]) = N" using Cons.prems(2) by simp
  have "NextIDs_loop clock N i sf ids = NextIDs_loop clock N (Suc i) ?sf' (ids[i := v])"
    using i(1) by (simp only: NextIDs_loop.simps [of clock N i sf ids] step if_True)
  also have "\<dots> = ((take (Suc i) (ids[i := v]) @ vs @ drop (Suc i + length vs) (ids[i := v]),
                      Some err),
                     snd (NextID_calls ?sf' (map clock [Suc i..<Suc (Suc i + length vs)])))"
    by (rule Cons.IH [OF i(2) len rest])
  also have "take (Suc i) (ids[i := v]) = take i ids @ [v]"
    using i(1) Cons.prems(2) by (simp add: take_Suc_conv_app_nth)
  also have "drop (Suc i + length vs) (ids[i := v]) = drop (i + length (v # vs)) ids"
    by simp
  also have "snd (NextID_calls ?sf' (map clock [Suc i..<Suc (Suc i + length vs)]))
             = snd (NextID_calls sf (map clock [i..<Suc (i + length (v # vs))]))"
    by (simp only: up list.map NextID_calls_Cons snd_conv)
  finally show ?case by simp
qed

lemma NextIDs_loop_succeeds:
  assumes "i + length vs = N"
    and "length ids = N"
    and "fst (NextID_calls sf (map clock [i..<N])) = map Inr vs"
  shows "NextIDs_loop clock N i sf ids
         = ((take i ids @ vs, None), snd (NextID_calls sf (map clock [i..<N])))"
  using assms
proof (induction vs arbitrary: i sf ids)
  case Nil
  then have "i = N" by simp
  then show ?case
    using Nil.prems(2) by (simp add: NextIDs_loop.simps [of clock N N sf ids])
next
  case (Cons v vs)
  have i: "i < N" "Suc i + length vs = N" using Cons.prems(1) by simp_all
  have up: "[i..<N] = i # [Suc i..<N]"
    using i(1) by (simp add: upt_conv_Cons)
  from Cons.prems(3) have f: "fst (nextID sf (clock i)) = Inr v"
    and rest: "fst (NextID_calls (snd (nextID sf (clock i))) (map clock [Suc i..<N]))
               = map Inr vs"
    by (simp_all only: up list.map NextID_calls_Cons fst_conv list.inject)
  let ?sf' = "snd (nextID sf (clock i))"
  have step: "(case nextID sf (clock i) of
                 (Inl err, sf') \<Rightarrow> ((ids, Some err), sf')
               | (Inr v, sf') \<Rightarrow> NextIDs_loop clock N (Suc i) sf' (ids[i := v]))
              = NextIDs_loop clock N (Suc i) ?sf' (ids[i := v])"
    using f by (cases "nextID sf (clock i)") simp
  have len: "length (ids[i := v]) = N" using Cons.prems(2) by simp
  have "NextIDs_loop clock N i sf ids = NextIDs_loop clock N (Suc i) ?sf' (ids[i := v])"
    using i(1) by (simp only: NextIDs_loop.simps [of clock N i sf ids] step if_True)
  also have "\<dots> = ((take (Suc i) (ids[i := v]) @ vs, None),
                     snd (NextID_calls ?sf' (map clock [Suc i..<N])))"
    by (rule Cons.IH [OF i(2) len rest])
  also have "take (Suc i) (ids[i := v]) = take i ids @ [v]"
    using i(1) Cons.prems(2) by (simp add: take_Suc_conv_app_nth)
  also have "snd (NextID_calls ?sf' (map clock [Suc i..<N]))
             = snd (NextID_calls sf (map clock [i..<N]))"
    by (simp only: up list.map NextID_calls_Cons snd_conv)
  finally show ?case by simp
qed

text \<open>
  Claim C4, amended. For every \<open>N \<ge> 0\<close>, with item \<open>i\<close> the \<open>i\<close>-th consecutive
  allocation on the generator: if the first failure is at item \<open>k < N\<close>, after the
  values \<open>vs\<close> of items \<open>0..k-1\<close>, then \<open>NextIDs\<close> returns the failure and a slice of
  length \<open>N\<close>, the \<open>k\<close> values \<open>vs\<close> in order followed by \<open>N - k\<close> zeros, and leaves the
  generator as the failing call left it; if no item fails it returns the \<open>N\<close> values
  and no error.
\<close>

theorem NextIDs_partial_results:
  "(k < N \<and> fst (NextID_calls sf (map clock [0..<Suc k])) = map Inr vs @ [Inl err]
      \<longrightarrow> NextIDs sf clock (int N)
          = Some ((vs @ replicate (N - k) 0, Some err),
                  snd (NextID_calls sf (map clock [0..<Suc k]))))
   \<and> (fst (NextID_calls sf (map clock [0..<N])) = map Inr vs
      \<longrightarrow> NextIDs sf clock (int N)
          = Some ((vs, None), snd (NextID_calls sf (map clock [0..<N]))))"
proof (intro conjI impI)
  assume a: "k < N \<and> fst (NextID_calls sf (map clock [0..<Suc k])) = map Inr vs @ [Inl err]"
  have "length (fst (NextID_calls sf (map clock [0..<Suc k]))) = Suc k"
    by (simp only: NextID_calls_length length_map length_upt)
  then have k: "k = length vs" using a by simp
  have "NextIDs_loop clock N 0 sf (replicate N 0)
        = ((take 0 (replicate N 0) @ vs @ drop (0 + length vs) (replicate N 0), Some err),
           snd (NextID_calls sf (map clock [0..<Suc (0 + length vs)])))"
    using a k by (intro NextIDs_loop_fails) simp_all
  then show "NextIDs sf clock (int N)
          = Some ((vs @ replicate (N - k) 0, Some err),
                  snd (NextID_calls sf (map clock [0..<Suc k])))"
    by (simp add: NextIDs_def k del: upt_Suc)
next
  assume a: "fst (NextID_calls sf (map clock [0..<N])) = map Inr vs"
  have "length (fst (NextID_calls sf (map clock [0..<N]))) = N"
    by (simp only: NextID_calls_length length_map length_upt)
  then have n: "length vs = N" using a by simp
  have "NextIDs_loop clock N 0 sf (replicate N 0)
        = ((take 0 (replicate N 0) @ vs, None), snd (NextID_calls sf (map clock [0..<N])))"
    using a n by (intro NextIDs_loop_succeeds) simp_all
  then show "NextIDs sf clock (int N)
          = Some ((vs, None), snd (NextID_calls sf (map clock [0..<N])))"
    by (simp add: NextIDs_def)
qed

lemmas alloc_eval =
  NextID_calls_Cons nextID_result nextID_state clock_eval toID_def
  BitLenTime_def BitLenSequence_def BitLenMachineID_def word_sless_alt word_sle_eq

lemma upt_2: "[0..<2] = [0, Suc 0]"
  by (simp add: upt_conv_Cons)

text \<open>
  The claim C4 as worded has \<open>NextIDs\<close> return exactly the \<open>k\<close> values made before
  the failure. The slice it returns is the one \<open>make([]uint64, num)\<close> built, of length
  \<open>num\<close>: on a generator in the last millisecond of its range (elapsed time
  \<open>2^39 - 1\<close>, sequence 254, the clock in that same millisecond), a batch of 3 makes one
  value, fails at item 1, and returns 3 values, the last two 0.
\<close>

theorem NextIDs_partial_counterexample:
  "fst (NextID_calls \<lparr>startTime = 0, elapsedTime = 549755813887, sequence = 254, machineID = 1\<rparr>
         (map ((+) 549755813887000000 \<circ> of_nat) [0..<2]))
     = [Inr 9223372036854710273, Inl ErrOverTimeLimit]
   \<and> NextIDs \<lparr>startTime = 0, elapsedTime = 549755813887, sequence = 254, machineID = 1\<rparr>
        ((+) 549755813887000000 \<circ> of_nat) 3
     = Some (([9223372036854710273, 0, 0], Some ErrOverTimeLimit),
             \<lparr>startTime = 0, elapsedTime = 549755813888, sequence = 0, machineID = 1\<rparr>)
   \<and> NextIDs \<lparr>startTime = 0, elapsedTime = 549755813887, sequence = 254, machineID = 1\<rparr>
        ((+) 549755813887000000 \<circ> of_nat) 3
     \<noteq> Some (([9223372036854710273], Some ErrOverTimeLimit),
             \<lparr>startTime = 0, elapsedTime = 549755813888, sequence = 0, machineID = 1\<rparr>)"
proof -
  let ?sf = "\<lparr>startTime = 0, elapsedTime = 549755813887, sequence = 254, machineID = 1\<rparr>"
  let ?clock = "(+) 549755813887000000 \<circ> of_nat :: nat \<Rightarrow> int64"
  have calls: "fst (NextID_calls ?sf (map ?clock [0..<2]))
     = [Inr 9223372036854710273, Inl ErrOverTimeLimit]"
    by (simp add: upt_2 alloc_eval del: NextID_calls.simps(2))
  have st: "snd (NextID_calls ?sf (map ?clock [0..<2]))
     = \<lparr>startTime = 0, elapsedTime = 549755813888, sequence = 0, machineID = 1\<rparr>"
    by (simp add: upt_2 alloc_eval del: NextID_calls.simps(2))
  have "NextIDs_loop ?clock 3 0 ?sf (replicate 3 0)
        = ((take 0 (replicate 3 0) @ [9223372036854710273]
            @ drop (0 + length [9223372036854710273 :: uint64]) (replicate 3 0),
            Some ErrOverTimeLimit),
           snd (NextID_calls ?sf (map ?clock [0..<Suc (0 + length [9223372036854710273 :: uint64])])))"
    using calls by (intro NextIDs_loop_fails) (simp_all add: numeral_2_eq_2)
  then have "NextIDs ?sf ?clock 3
     = Some (([9223372036854710273, 0, 0], Some ErrOverTimeLimit),
             \<lparr>startTime = 0, elapsedTime = 549755813888, sequence = 0, machineID = 1\<rparr>)"
    using st by (simp add: NextIDs_def numeral_2_eq_2 numeral_3_eq_3 del: upt_Suc)
  with calls show ?thesis by simp
qed

theorem NextIDs_partial_results_witness:
  "((1 :: nat) < 3
    \<and> fst (NextID_calls \<lparr>startTime = 0, elapsedTime = 549755813887, sequence = 254, machineID = 1\<rparr>
         (map ((+) 549755813887000000 \<circ> of_nat) [0..<Suc 1]))
      = map Inr [9223372036854710273] @ [Inl ErrOverTimeLimit])
   \<and> NextIDs \<lparr>startTime = 0, elapsedTime = 549755813887, sequence = 254, machineID = 1\<rparr>
        ((+) 549755813887000000 \<circ> of_nat) (int 3)
     = Some (([9223372036854710273, 0, 0], Some ErrOverTimeLimit),
             \<lparr>startTime = 0, elapsedTime = 549755813888, sequence = 0, machineID = 1\<rparr>)
   \<and> fst (NextID_calls \<lparr>startTime = 0, elapsedTime = 5, sequence = 3, machineID = 1\<rparr>
         (map ((+) 5000000 \<circ> of_nat) [0..<2]))
      = map Inr [84148225, 84213761]
   \<and> NextIDs \<lparr>startTime = 0, elapsedTime = 5, sequence = 3, machineID = 1\<rparr>
        ((+) 5000000 \<circ> of_nat) (int 2)
     = Some (([84148225, 84213761], None),
             \<lparr>startTime = 0, elapsedTime = 5, sequence = 5, machineID = 1\<rparr>)"
proof -
  let ?sf = "\<lparr>startTime = 0, elapsedTime = 549755813887, sequence = 254, machineID = 1\<rparr>"
  let ?clock = "(+) 549755813887000000 \<circ> of_nat :: nat \<Rightarrow> int64"
  let ?sf2 = "\<lparr>startTime = 0, elapsedTime = 5, sequence = 3, machineID = 1\<rparr>"
  have k: "(1 :: nat) < 3" by simp
  have calls: "fst (NextID_calls ?sf (map ?clock [0..<Suc 1]))
     = map Inr [9223372036854710273] @ [Inl ErrOverTimeLimit]"
    by (simp add: upt_conv_Cons alloc_eval del: NextID_calls.simps(2) upt_Suc)
  have st: "snd (NextID_calls ?sf (map ?clock [0..<Suc 1]))
     = \<lparr>startTime = 0, elapsedTime = 549755813888, sequence = 0, machineID = 1\<rparr>"
    by (simp add: upt_conv_Cons alloc_eval del: NextID_calls.simps(2) upt_Suc)
  have calls2: "fst (NextID_calls ?sf2 (map ((+) 5000000 \<circ> of_nat) [0..<2])) = map Inr [84148225, 84213761]"
    by (simp add: upt_2 alloc_eval del: NextID_calls.simps(2))
  have st2: "snd (NextID_calls ?sf2 (map ((+) 5000000 \<circ> of_nat) [0..<2]))
     = \<lparr>startTime = 0, elapsedTime = 5, sequence = 5, machineID = 1\<rparr>"
    by (simp add: upt_2 alloc_eval del: NextID_calls.simps(2))
  have fail: "NextIDs ?sf ?clock (int 3)
     = Some (([9223372036854710273, 0, 0], Some ErrOverTimeLimit),
             \<lparr>startTime = 0, elapsedTime = 549755813888, sequence = 0, machineID = 1\<rparr>)"
    using NextIDs_partial_results [of 1 3 ?sf ?clock "[9223372036854710273]" ErrOverTimeLimit]
      k calls
    by (simp only: st) (simp add: numeral_2_eq_2)
  have ok: "NextIDs ?sf2 ((+) 5000000 \<circ> of_nat) (int 2)
     = Some (([84148225, 84213761], None),
             \<lparr>startTime = 0, elapsedTime = 5, sequence = 5, machineID = 1\<rparr>)"
    using NextIDs_partial_results [of 0 2 ?sf2 "(+) 5000000 \<circ> of_nat" "[84148225, 84213761]"] calls2
    by (simp only: st2)
  from k calls fail calls2 ok show ?thesis by blast
qed

subsection \<open>The default machine ID\<close>

lemma octet_bound: "unat (x :: byte) < 256"
  using unsigned_less [of x] by simp

lemma div_split:
  fixes q r n :: nat
  assumes "r < n"
  shows "(q * n + r) div n = q"
  using assms by simp

lemma ipv4_value_octets:
  "ipv4_value [a, b, c, d]
   = unat a * 16777216 + unat b * 65536 + unat c * 256 + unat d"
  by (simp add: ipv4_value_def)

lemma prefix8:
  fixes a b c d :: byte
  shows "ipv4_value [a, b, c, d] div 16777216 = unat a"
proof -
  have "unat b * 65536 + unat c * 256 + unat d < 16777216"
    using octet_bound [of b] octet_bound [of c] octet_bound [of d] by linarith
  then have "(unat a * 16777216 + (unat b * 65536 + unat c * 256 + unat d)) div 16777216
             = unat a"
    by (rule div_split)
  moreover have "ipv4_value [a, b, c, d]
      = unat a * 16777216 + (unat b * 65536 + unat c * 256 + unat d)"
    by (simp only: ipv4_value_octets add.assoc)
  ultimately show ?thesis by (simp only:)
qed

lemma prefix16:
  fixes a b c d :: byte
  shows "ipv4_value [a, b, c, d] div 65536 = unat a * 256 + unat b"
proof -
  have "unat c * 256 + unat d < 65536"
    using octet_bound [of c] octet_bound [of d] by linarith
  then have "((unat a * 256 + unat b) * 65536 + (unat c * 256 + unat d)) div 65536
             = unat a * 256 + unat b"
    by (rule div_split)
  moreover have "ipv4_value [a, b, c, d]
      = (unat a * 256 + unat b) * 65536 + (unat c * 256 + unat d)"
    unfolding ipv4_value_octets by (simp add: algebra_simps)
  ultimately show ?thesis by (simp only:)
qed

lemma prefix12:
  fixes a b c d :: byte
  shows "ipv4_value [a, b, c, d] div 1048576 = unat a * 16 + unat b div 16"
proof -
  define hi lo where "hi = unat b div 16" and "lo = unat b mod 16"
  have b: "unat b = hi * 16 + lo" by (simp add: hi_def lo_def)
  have "lo < 16" by (simp add: lo_def)
  then have "lo * 65536 + unat c * 256 + unat d < 1048576"
    using octet_bound [of c] octet_bound [of d] by linarith
  then have "((unat a * 16 + hi) * 1048576 + (lo * 65536 + unat c * 256 + unat d)) div 1048576
             = unat a * 16 + hi"
    by (rule div_split)
  moreover have "ipv4_value [a, b, c, d]
      = (unat a * 16 + hi) * 1048576 + (lo * 65536 + unat c * 256 + unat d)"
    unfolding ipv4_value_octets b by (simp add: algebra_simps)
  ultimately show ?thesis by (simp only: hi_def)
qed

lemma octet_eq: "(a :: byte) = numeral n \<longleftrightarrow> unat a = unat (numeral n :: byte)"
  by (simp only: word_unat_eq_iff)

lemma isPrivateIPv4_prefixes:
  fixes a b c d :: byte
  shows "isPrivateIPv4 (Some [a, b, c, d]) \<longleftrightarrow>
           in_prefix [a, b, c, d] [10, 0, 0, 0] 8
         \<or> in_prefix [a, b, c, d] [172, 16, 0, 0] 12
         \<or> in_prefix [a, b, c, d] [192, 168, 0, 0] 16"
proof -
  have p8: "in_prefix [a, b, c, d] [10, 0, 0, 0] 8 \<longleftrightarrow> a = 10"
    by (simp add: in_prefix_def prefix8 octet_eq)
  have "in_prefix [a, b, c, d] [172, 16, 0, 0] 12 \<longleftrightarrow> unat a * 16 + unat b div 16 = 2753"
    by (simp add: in_prefix_def prefix12)
  also have "\<dots> \<longleftrightarrow> unat a = 172 \<and> unat b div 16 = 1"
  proof
    assume e: "unat a * 16 + unat b div 16 = 2753"
    have h: "unat b div 16 < 16"
      using octet_bound [of b] by (simp add: div_less_iff_less_mult)
    have "(unat a * 16 + unat b div 16) div 16 = unat a"
      using h by (rule div_split)
    then have "unat a = 172" by (simp add: e)
    with e show "unat a = 172 \<and> unat b div 16 = 1" by simp
  next
    assume "unat a = 172 \<and> unat b div 16 = 1"
    then show "unat a * 16 + unat b div 16 = 2753" by simp
  qed
  also have "\<dots> \<longleftrightarrow> unat a = 172 \<and> 16 \<le> unat b \<and> unat b < 32"
  proof -
    have "m div 16 = 1 \<longleftrightarrow> 16 \<le> m \<and> m < 32" for m :: nat
      by presburger
    then show ?thesis by simp
  qed
  also have "\<dots> \<longleftrightarrow> a = 172 \<and> 16 \<le> b \<and> b < 32"
    by (simp add: octet_eq word_le_nat_alt word_less_nat_alt)
  finally have p12: "in_prefix [a, b, c, d] [172, 16, 0, 0] 12
      \<longleftrightarrow> a = 172 \<and> 16 \<le> b \<and> b < 32" .
  have "in_prefix [a, b, c, d] [192, 168, 0, 0] 16 \<longleftrightarrow> unat a * 256 + unat b = 49320"
    by (simp add: in_prefix_def prefix16)
  also have "\<dots> \<longleftrightarrow> unat a = 192 \<and> unat b = 168"
  proof
    assume e: "unat a * 256 + unat b = 49320"
    have "(unat a * 256 + unat b) div 256 = unat a"
      using octet_bound [of b] by (rule div_split)
    then have "unat a = 192" by (simp add: e)
    with e show "unat a = 192 \<and> unat b = 168" by simp
  next
    assume "unat a = 192 \<and> unat b = 168"
    then show "unat a * 256 + unat b = 49320" by simp
  qed
  also have "\<dots> \<longleftrightarrow> a = 192 \<and> b = 168"
    by (simp add: octet_eq)
  finally have p16: "in_prefix [a, b, c, d] [192, 168, 0, 0] 16 \<longleftrightarrow> a = 192 \<and> b = 168" .
  show ?thesis
    by (simp only: p8 p12 p16) (simp add: isPrivateIPv4_def)
qed

lemma private_addrs_simps:
  "private_addrs [] = []"
  "private_addrs (OtherAddr # as) = private_addrs as"
  "private_addrs (IPNet ip # as) =
     (case To4 ip of
        None \<Rightarrow> private_addrs as
      | Some ip4 \<Rightarrow> if isPrivateIPv4 (Some ip4) then ip4 # private_addrs as
                    else private_addrs as)"
  by (simp_all add: private_addrs_def split: option.splits cong: Addr.case_cong)

lemma loopback_not_private:
  assumes "IsLoopback ip" and "To4 ip = Some ip4"
  shows "\<not> isPrivateIPv4 (Some ip4)"
  using assms by (simp add: IsLoopback_def isPrivateIPv4_def)

lemma privateIPv4_loop_first:
  "privateIPv4_loop as =
     (case private_addrs as of [] \<Rightarrow> Inl ErrNoPrivateIP | ip # _ \<Rightarrow> Inr ip)"
proof (induction as rule: privateIPv4_loop.induct)
  case 1
  then show ?case by (simp add: private_addrs_simps)
next
  case (2 as)
  then show ?case by (simp add: private_addrs_simps)
next
  case (3 ip as)
  then show ?case
    using loopback_not_private [of ip]
    by (auto simp: private_addrs_simps split: option.splits)
qed

lemma To4_length: "To4 ip = Some ip4 \<Longrightarrow> length ip4 = 4"
  by (auto simp: To4_def split: if_splits)

lemma private_addrs_are_private:
  "ip \<in> set (private_addrs as) \<Longrightarrow> length ip = 4 \<and> isPrivateIPv4 (Some ip)"
proof (induction as)
  case Nil
  then show ?case by (simp add: private_addrs_simps)
next
  case (Cons a as)
  then show ?case
    by (cases a) (auto simp: private_addrs_simps To4_length split: option.splits if_splits)
qed

lemma octets_plus_or:
  fixes c d :: byte
  shows "push_bit 8 (ucast c :: uint16) + ucast d = push_bit 8 (ucast c) OR ucast d"
  by (rule disjunctive_add_eq_or, rule bit_word_eqI)
     (auto simp: bit_simps dest: bit_imp_le_length)

text \<open>
  Claim C9. \<open>isPrivateIPv4\<close> holds of a 4-byte address exactly when the address lies
  in \<open>10.0.0.0/8\<close>, \<open>172.16.0.0/12\<close> or \<open>192.168.0.0/16\<close>. \<open>lower16BitPrivateIP\<close> takes
  the first private IPv4 address among the interface addresses and returns its third
  octet shifted left by 8 bits OR its fourth octet; it fails with "no private ip
  address" when there is none, and with the error of \<open>net.InterfaceAddrs\<close> when that
  fails. (Skipping loopback addresses changes nothing here: none is private.)
\<close>

theorem default_machine_id:
  "(isPrivateIPv4 (Some [a, b, c, d]) \<longleftrightarrow>
       in_prefix [a, b, c, d] [10, 0, 0, 0] 8
     \<or> in_prefix [a, b, c, d] [172, 16, 0, 0] 12
     \<or> in_prefix [a, b, c, d] [192, 168, 0, 0] 16)
   \<and> lower16BitPrivateIP (Inr as)
     = (case private_addrs as of
          [] \<Rightarrow> Inl ErrNoPrivateIP
        | ip # _ \<Rightarrow> Inr (push_bit 8 (ucast (ip ! 2)) OR ucast (ip ! 3)))
   \<and> (\<forall>ip\<in>set (private_addrs as). length ip = 4 \<and> isPrivateIPv4 (Some ip))
   \<and> lower16BitPrivateIP (Inl err) = Inl err"
proof -
  have id: "lower16BitPrivateIP (Inr as)
     = (case private_addrs as of
          [] \<Rightarrow> Inl ErrNoPrivateIP
        | ip # _ \<Rightarrow> Inr (push_bit 8 (ucast (ip ! 2)) OR ucast (ip ! 3)))"
    by (simp add: lower16BitPrivateIP_def privateIPv4_def privateIPv4_loop_first
        octets_plus_or split: list.splits)
  have all: "\<forall>ip\<in>set (private_addrs as). length ip = 4 \<and> isPrivateIPv4 (Some ip)"
    using private_addrs_are_private by blast
  have err: "lower16BitPrivateIP (Inl err) = Inl err"
    by (simp add: lower16BitPrivateIP_def privateIPv4_def)
  from isPrivateIPv4_prefixes [of a b c d] id all err show ?thesis by blast
qed

theorem default_machine_id_witness:
  "isPrivateIPv4 (Some [172, 31, 255, 255])
   \<and> \<not> isPrivateIPv4 (Some [172, 32, 0, 0])
   \<and> private_addrs [OtherAddr, IPNet [127, 0, 0, 1],
        IPNet [0, 0, 0, 0, 0, 0, 0, 0, 0, 0, 255, 255, 10, 1, 2, 3], IPNet [192, 168, 1, 2]]
     = [[10, 1, 2, 3], [192, 168, 1, 2]]
   \<and> lower16BitPrivateIP (Inr [OtherAddr, IPNet [127, 0, 0, 1],
        IPNet [0, 0, 0, 0, 0, 0, 0, 0, 0, 0, 255, 255, 10, 1, 2, 3], IPNet [192, 168, 1, 2]])
     = Inr 515
   \<and> lower16BitPrivateIP (Inr [IPNet [127, 0, 0, 1], IPNet [8, 8, 8, 8]]) = Inl ErrNoPrivateIP"
proof -
  let ?as = "[OtherAddr, IPNet [127, 0, 0, 1],
        IPNet [0, 0, 0, 0, 0, 0, 0, 0, 0, 0, 255, 255, 10, 1, 2, 3], IPNet [192, 168, 1, 2]]"
  have p: "private_addrs ?as = [[10, 1, 2, 3], [192, 168, 1, 2]]"
    by code_simp
  have q: "private_addrs [IPNet [127, 0, 0, 1], IPNet [8, 8, 8, 8]] = []"
    by code_simp
  have r: "in_prefix [172, 31, 255, 255] [172, 16, 0, 0] 12"
    by (simp add: in_prefix_def ipv4_value_def)
  have s: "\<not> in_prefix [172, 32, 0, 0] [10, 0, 0, 0] 8"
    "\<not> in_prefix [172, 32, 0, 0] [172, 16, 0, 0] 12"
    "\<not> in_prefix [172, 32, 0, 0] [192, 168, 0, 0] 16"
    by (simp_all add: in_prefix_def ipv4_value_def)
  show ?thesis
    using p q r s
      default_machine_id [of 172 31 255 255 ?as]
      default_machine_id [of 172 32 0 0 "[IPNet [127, 0, 0, 1], IPNet [8, 8, 8, 8]]"]
    by simp
qed

subsection \<open>The states a generator reaches\<close>

text \<open>
  \<open>elapsedTime\<close> never decreases, and it stays below any bound that the clock readings
  and the number of calls leave room for. So a new generator, whose \<open>elapsedTime\<close> is
  0, is after any run inside the range of \<open>int64\<close> in a state with
  \<open>0 \<le> elapsedTime < 2^63 - 1\<close>: the states from which consecutive successful
  allocations are shown to increase.
\<close>

lemma NextID_calls_elapsedTime_range:
  assumes "B \<le> 2 ^ 63"
    and "sint (elapsedTime sf) + int (length nows) < B"
    and "\<forall>n\<in>set nows. sint (currentElapsedTime (startTime sf) n) + int (length nows) < B"
  shows "sint (elapsedTime sf) \<le> sint (elapsedTime (snd (NextID_calls sf nows)))
       \<and> sint (elapsedTime (snd (NextID_calls sf nows))) < B"
  using assms(2,3)
proof (induction nows arbitrary: sf)
  case Nil
  then show ?case by simp
next
  case (Cons now nows)
  let ?sf' = "snd (nextID sf now)"
  have nw: "sint (elapsedTime sf) < 2 ^ 63 - 1" using Cons.prems(1) assms(1) by simp
  have cb: "sint (currentElapsedTime (startTime sf) now) + int (length nows) + 1 < B"
    using Cons.prems(2) by simp
  have e': "sint (elapsedTime sf) \<le> sint (elapsedTime ?sf')
            \<and> sint (elapsedTime ?sf') + int (length nows) < B"
    using nextID_elapsedTime_cases [of sf now] sint64_succ [OF nw] Cons.prems(1) cb
    by auto
  have "sint (elapsedTime ?sf') \<le> sint (elapsedTime (snd (NextID_calls ?sf' nows)))
       \<and> sint (elapsedTime (snd (NextID_calls ?sf' nows))) < B"
  proof (rule Cons.IH)
    show "sint (elapsedTime ?sf') + int (length nows) < B" using e' by simp
    show "\<forall>n\<in>set nows. sint (currentElapsedTime (startTime ?sf') n) + int (length nows) < B"
      using Cons.prems(2) by (auto simp: nextID_keeps)
  qed
  with e' show ?case
    by (simp add: NextID_calls_Cons del: NextID_calls.simps(2))
qed

lemma new_generator_in_range:
  assumes "NewSnooflake st now0 ifaddrs = Some sf"
    and "int (length nows) < 2 ^ 62"
    and "\<forall>n\<in>set nows. sint (currentElapsedTime (startTime sf) n) < 2 ^ 62"
  shows "0 \<le> sint (elapsedTime (snd (NextID_calls sf nows)))
       \<and> sint (elapsedTime (snd (NextID_calls sf nows))) < 2 ^ 63 - 1"
proof -
  have e: "elapsedTime sf = 0" using NewSnooflake_Some(1) [OF assms(1)] .
  have "sint (elapsedTime sf) \<le> sint (elapsedTime (snd (NextID_calls sf nows)))
       \<and> sint (elapsedTime (snd (NextID_calls sf nows))) < 2 ^ 63 - 1"
  proof (rule NextID_calls_elapsedTime_range)
    show "(2 ^ 63 - 1 :: int) \<le> 2 ^ 63" by simp
    show "sint (elapsedTime sf) + int (length nows) < 2 ^ 63 - 1"
      using assms(2) by (simp add: e)
    show "\<forall>n\<in>set nows. sint (currentElapsedTime (startTime sf) n) + int (length nows)
            < 2 ^ 63 - 1"
      using assms(2,3) by auto
  qed
  then show ?thesis by (simp add: e)
qed

end
